theory Spec2Isabelle
  imports Complex_Main "HOL-Library.Char_ord" "HOL-Library.List_Lexorder"
    "HOL-Library.Product_Lexorder" "HOL-Library.Multiset"
begin

section \<open>Data model\<close>

text \<open>
  Floating-point numbers (numpy \<open>float32\<close>, Python \<open>float\<close>) are modelled as reals, and
  sums, products and quotients as exact: rounding, NaN and infinities are outside the
  model. The one place where the code branches on a rounded value, the squared norm that
  \<open>faiss.normalize_L2\<close> tests, is a parameter of the model. Python strings are \<open>string\<close>,
  ordered lexicographically by character code, as Python orders \<open>str\<close>.

  The exceptions of the Python code are values of \<open>error\<close>. \<open>AssertionError\<close>,
  \<open>IndexError\<close>, \<open>ValueError\<close>, \<open>KeyError\<close> and \<open>StatementError\<close> are raised by the code or
  the libraries it calls. \<open>InvalidArgumentError\<close> and \<open>InvalidEmbeddingError\<close> are the names
  the specification uses; no statement of the source raises them.
\<close>

datatype error =
    AssertionError
  | IndexError
  | ValueError
  | KeyError
  | StatementError
  | InvalidArgumentError
  | InvalidEmbeddingError

text \<open>A row of table \<open>items\<close> (\<open>ensure_tables\<close> in \<open>embed_index.py\<close>), without the
  autoincrement \<open>id\<close>: rows are kept in a list in insertion (rowid) order.\<close>

record item =
  source :: string
  url :: string
  local_path :: string
  ts :: string
  style :: string
  prob :: real
  emb :: "real list"

text \<open>A row of table \<open>trends\<close> (\<open>calc_trends\<close> in \<open>trend_metrics.py\<close>). The day is the text
  \<open>str(date)\<close>, that is \<open>YYYY-MM-DD\<close>, whose lexicographic order is the chronological one.\<close>

record trend =
  tr_style :: string
  tr_day :: string
  tr_count :: int
  tr_ema :: real
  tr_velocity :: real

text \<open>A flat inner-product index (\<open>faiss.IndexFlatIP\<close>): its dimension and the stored
  vectors in insertion order.\<close>

record faiss_index =
  ix_d :: nat
  ix_xb :: "real list list"

section \<open>Vector operations of the search library\<close>

definition fvec_inner_product :: "real list \<Rightarrow> real list \<Rightarrow> real" where
  "fvec_inner_product x y = sum_list (map2 (*) x y)"

text \<open>The squared L2 norm in exact arithmetic.\<close>

definition sum_squares :: "real list \<Rightarrow> real" where
  "sum_squares x = sum_list (map (\<lambda>a. a * a) x)"

text \<open>\<open>faiss.normalize_L2\<close> computes the squared norm of each row of a matrix in \<open>float32\<close>
  and, when the result is positive, multiplies the row in place by the inverse of its
  square root; a row whose computed squared norm is not positive is left as it is, and
  nothing is raised. The computed squared norm is the parameter \<open>norm_L2sqr\<close> (the
  library's \<open>fvec_norm_L2sqr\<close>): it is \<open>sum_squares\<close> up to rounding, and it is 0 for the
  zero vector and for rows whose squares underflow.\<close>

definition fvec_renorm_L2 :: "(real list \<Rightarrow> real) \<Rightarrow> real list \<Rightarrow> real list" where
  "fvec_renorm_L2 norm_L2sqr x =
     (let nr = norm_L2sqr x
      in if nr > 0 then map (\<lambda>a. a * (1 / sqrt nr)) x else x)"

definition normalize_L2 :: "(real list \<Rightarrow> real) \<Rightarrow> real list list \<Rightarrow> real list list" where
  "normalize_L2 norm_L2sqr X = map (fvec_renorm_L2 norm_L2sqr) X"

text \<open>The distance that the library writes into result slots it cannot fill (the lowest
  finite \<open>float32\<close>); the label of such a slot is \<open>-1\<close>.\<close>

definition neutral_dist :: real where
  "neutral_dist = - 340282346638528859811704183484516925440"

text \<open>The library scans the stored vectors in label order and keeps the \<open>n\<close> best in a heap
  of pairs (distance, label) whose top is the lowest pair, the smaller label being the
  lower of two equal distances. The heap starts as \<open>n\<close> slots \<open>(neutral_dist, -1)\<close>. A
  candidate replaces the top when its distance is strictly above the distance of the
  top. While a slot is still unfilled the top is such a slot, and every computed distance
  is above \<open>neutral_dist\<close>, so the candidate takes the slot. The model keeps the filled
  slots only, as a list in ascending order.\<close>

definition heap_add :: "nat \<Rightarrow> (real \<times> int) list \<Rightarrow> real \<times> int \<Rightarrow> (real \<times> int) list" where
  "heap_add n h c =
     (if length h < n then insort c h
      else (case h of
              [] \<Rightarrow> h
            | lowest # rest \<Rightarrow> if fst lowest < fst c then insort c rest else h))"

text \<open>The candidates kept for a result of \<open>n\<close> slots, as the library writes them out: the
  heap emptied from the top and written from the last slot backwards, so the highest
  inner product comes first and, of two equal ones, the larger label.\<close>

definition ranked :: "faiss_index \<Rightarrow> real list \<Rightarrow> nat \<Rightarrow> (int \<times> real) list" where
  "ranked ix q n =
     map (\<lambda>(s, i). (i, s))
       (rev (foldl (heap_add n) []
          (map (\<lambda>(i, x). (fvec_inner_product q x, int i)) (enumerate 0 (ix_xb ix)))))"

text \<open>\<open>index.search(q, n)\<close> for one query row. The Python wrapper asserts that the query has
  the index's dimension and that \<open>n > 0\<close>. The result always has \<open>n\<close> slots: the kept
  candidates, then slots \<open>(-1, neutral_dist)\<close> when the index holds fewer than \<open>n\<close> vectors.
  It is the pair of rows \<open>(I[0], D[0])\<close> zipped. (For \<open>n\<close> of 100 or more the library
  selects with a reservoir before it fills the heap; the result is the same whenever the
  distances around the cut are distinct or the index holds at most \<open>2 * n\<close> vectors.)\<close>

definition index_search :: "faiss_index \<Rightarrow> real list \<Rightarrow> int \<Rightarrow> error + (int \<times> real) list" where
  "index_search ix q n =
     (if length q \<noteq> ix_d ix then Inl AssertionError
      else if \<not> n > 0 then Inl AssertionError
      else Inr (ranked ix q (nat n)
                @ replicate (nat n - length (ix_xb ix)) (- 1, neutral_dist)))"

section \<open>The recommender (\<open>app.py\<close>)\<close>

text \<open>\<open>items.iloc[idx]\<close>: positional row access; a negative position counts from the end,
  a position out of range raises \<open>IndexError\<close>.\<close>

definition iloc :: "'a list \<Rightarrow> int \<Rightarrow> error + 'a" where
  "iloc rows idx =
     (let n = int (length rows)
      in if 0 \<le> idx \<and> idx < n then Inr (rows ! nat idx)
         else if - n \<le> idx \<and> idx < 0 then Inr (rows ! nat (n + idx))
         else Inl IndexError)"

text \<open>\<open>trends.sort_values("day").groupby("style").tail(1).set_index("style")["velocity"].to_dict()\<close>:
  for each style the velocity of its last row in day order (rows of one day are kept in
  table order).\<close>

definition latest :: "trend list \<Rightarrow> string \<rightharpoonup> real" where
  "latest trends s =
     (case filter (\<lambda>r. tr_style r = s) (sort_key tr_day trends) of
        [] \<Rightarrow> None
      | r # rs \<Rightarrow> Some (tr_velocity (last (r # rs))))"

text \<open>\<open>latest.get(s, 0.0)\<close>\<close>

definition latest_get :: "(string \<rightharpoonup> real) \<Rightarrow> string \<Rightarrow> real" where
  "latest_get lat s = (case lat s of None \<Rightarrow> 0 | Some v \<Rightarrow> v)"

text \<open>\<open>float(dist) + 0.25 * max(0.0, latest.get(row["style"], 0.0))\<close>\<close>

definition trend_boost :: "(string \<rightharpoonup> real) \<Rightarrow> string \<Rightarrow> real" where
  "trend_boost lat s = max 0 (latest_get lat s)"

definition score :: "(string \<rightharpoonup> real) \<Rightarrow> real \<Rightarrow> string \<Rightarrow> real" where
  "score lat dst s = dst + 0.25 * trend_boost lat s"

type_synonym chosen = "(real \<times> string \<times> string) list"

text \<open>The \<open>for idx, dist in zip(I[0], D[0])\<close> loop: the candidates still to visit and the
  list \<open>chosen\<close> built so far (\<open>dst\<close> is the loop variable \<open>dist\<close>).\<close>

fun walk :: "item list \<Rightarrow> (string \<rightharpoonup> real) \<Rightarrow> string list \<Rightarrow> int
    \<Rightarrow> (int \<times> real) list \<Rightarrow> chosen \<Rightarrow> error + chosen" where
  "walk items lat styles k [] chosen = Inr chosen"
| "walk items lat styles k ((idx, dst) # rest) chosen =
     (case iloc items idx of
        Inl e \<Rightarrow> Inl e
      | Inr row \<Rightarrow>
          if styles \<noteq> [] \<and> style row \<notin> set styles then walk items lat styles k rest chosen
          else
            let chosen' = chosen @ [(score lat dst (style row), local_path row, style row)]
            in if int (length chosen') \<ge> k then Inr chosen'
               else walk items lat styles k rest chosen')"

text \<open>\<open>chosen.sort(reverse=True)\<close>: Python reverses the list, sorts it stably in ascending
  order of the tuples and reverses it again.\<close>

definition sort_reverse :: "chosen \<Rightarrow> chosen" where
  "sort_reverse chosen = rev (sort_key (\<lambda>c. c) (rev chosen))"

text \<open>\<open>recommend\<close> up to the sorted list \<open>chosen\<close>. The argument \<open>q\<close> is the result of
  \<open>embed(user_img)\<close>; the index, the rows of \<open>items\<close> and the rows of \<open>trends\<close> are what the
  function reads from the module's index and from the database; \<open>norm_L2sqr\<close> is the
  squared norm as \<open>faiss.normalize_L2\<close> computes it.\<close>

definition recommend_chosen :: "(real list \<Rightarrow> real) \<Rightarrow> faiss_index \<Rightarrow> item list \<Rightarrow> trend list
    \<Rightarrow> real list \<Rightarrow> string list \<Rightarrow> int \<Rightarrow> error + chosen" where
  "recommend_chosen norm_L2sqr index items trends q styles k =
     (case index_search index (fvec_renorm_L2 norm_L2sqr q) (k * 5) of
        Inl e \<Rightarrow> Inl e
      | Inr pool \<Rightarrow>
          (case walk items (latest trends) styles k pool [] of
             Inl e \<Rightarrow> Inl e
           | Inr chosen \<Rightarrow> Inr (sort_reverse chosen)))"

text \<open>\<open>recommend\<close>: the images and the captions of the sorted list.\<close>

definition recommend :: "(real list \<Rightarrow> real) \<Rightarrow> faiss_index \<Rightarrow> item list \<Rightarrow> trend list
    \<Rightarrow> real list \<Rightarrow> string list \<Rightarrow> int \<Rightarrow> error + (string list \<times> string list)" where
  "recommend norm_L2sqr index items trends q styles k =
     (case recommend_chosen norm_L2sqr index items trends q styles k of
        Inl e \<Rightarrow> Inl e
      | Inr chosen \<Rightarrow> Inr (map (\<lambda>c. fst (snd c)) chosen, map (\<lambda>c. snd (snd c)) chosen))"

section \<open>Building the catalog and the index (\<open>embed_index.py\<close>)\<close>

text \<open>\<open>meta.get(key, default)\<close> on a dictionary of strings.\<close>

definition dict_get :: "(string \<rightharpoonup> string) \<Rightarrow> string \<Rightarrow> string \<Rightarrow> string" where
  "dict_get meta key dflt = (case meta key of None \<Rightarrow> dflt | Some v \<Rightarrow> v)"

text \<open>\<open>upsert_item\<close> appends one row to table \<open>items\<close>; \<open>meta["local_path"]\<close> raises
  \<open>KeyError\<close> when the key is missing. \<open>now\<close> is the value of
  \<open>datetime.utcnow().isoformat()\<close> at the call. The embedding is stored as the bytes of
  the \<open>float32\<close> array and read back by \<open>np.frombuffer\<close>; the model keeps the vector.\<close>

definition upsert_item :: "string \<Rightarrow> (string \<rightharpoonup> string) \<Rightarrow> string \<Rightarrow> real \<Rightarrow> real list
    \<Rightarrow> item list \<Rightarrow> error + item list" where
  "upsert_item now meta sty prb v tbl =
     (case meta ''local_path'' of
        None \<Rightarrow> Inl KeyError
      | Some lp \<Rightarrow>
          Inr (tbl @ [\<lparr>source = dict_get meta ''sub'' ''reddit'',
                       url = dict_get meta ''url'' [],
                       local_path = lp,
                       ts = dict_get meta ''ts'' now,
                       style = sty, prob = prb, emb = v\<rparr>]))"

text \<open>\<open>build_faiss\<close> reads the embeddings of all rows. With no row it returns without
  writing an index (\<open>None\<close>). \<open>np.vstack\<close> raises \<open>ValueError\<close> when the rows differ in
  length. Otherwise the matrix is normalised row by row and written as a new index.\<close>

definition build_faiss :: "(real list \<Rightarrow> real) \<Rightarrow> item list \<Rightarrow> error + faiss_index option" where
  "build_faiss norm_L2sqr tbl =
     (let rows = map emb tbl
      in if rows = [] then Inr None
         else if list_ex (\<lambda>r. length r \<noteq> length (hd rows)) rows then Inl ValueError
         else Inr (Some \<lparr>ix_d = length (hd rows), ix_xb = normalize_L2 norm_L2sqr rows\<rparr>))"

text \<open>The loop of the entry point over \<open>glob.glob("data/images/*")\<close>. The image encoder
  \<open>embed_img\<close>, the classifier \<open>zero_shot_style\<close> and the clock \<open>now\<close> (read while a path
  is processed) are parameters; \<open>meta_by_path\<close> is the dictionary read from the CSV of
  public metadata.\<close>

fun index_images :: "(string \<Rightarrow> real list) \<Rightarrow> (real list \<Rightarrow> string \<times> real) \<Rightarrow> (string \<Rightarrow> string)
    \<Rightarrow> (string \<rightharpoonup> (string \<rightharpoonup> string)) \<Rightarrow> string list \<Rightarrow> item list \<Rightarrow> error + item list" where
  "index_images embed_img zero_shot_style now meta_by_path [] tbl = Inr tbl"
| "index_images embed_img zero_shot_style now meta_by_path (p # ps) tbl =
     (let v = embed_img p;
          (sty, prb) = zero_shot_style v;
          meta = Map.empty(''local_path'' \<mapsto> p, ''ts'' \<mapsto> now p, ''url'' \<mapsto> [],
                          ''sub'' \<mapsto> ''reddit'')
      in (case upsert_item (now p) meta sty prb v tbl of
            Inl e \<Rightarrow> Inl e
          | Inr tbl1 \<Rightarrow>
              (let meta = (case meta_by_path p of None \<Rightarrow> Map.empty | Some m \<Rightarrow> m);
                   meta2 = Map.empty(''sub'' \<mapsto> dict_get meta ''sub'' ''reddit'',
                                    ''url'' \<mapsto> dict_get meta ''url'' [],
                                    ''ts'' \<mapsto> dict_get meta ''ts'' [],
                                    ''local_path'' \<mapsto> p)
               in (case upsert_item (now p) meta2 sty prb v tbl1 of
                     Inl e \<Rightarrow> Inl e
                   | Inr tbl2 \<Rightarrow>
                       index_images embed_img zero_shot_style now meta_by_path ps tbl2))))"

text \<open>The entry point: the loop, then \<open>build_faiss\<close> on the table it leaves.\<close>

definition main :: "(real list \<Rightarrow> real) \<Rightarrow> (string \<Rightarrow> real list) \<Rightarrow> (real list \<Rightarrow> string \<times> real)
    \<Rightarrow> (string \<Rightarrow> string) \<Rightarrow> (string \<rightharpoonup> (string \<rightharpoonup> string)) \<Rightarrow> string list \<Rightarrow> item list
    \<Rightarrow> error + (item list \<times> faiss_index option)" where
  "main norm_L2sqr embed_img zero_shot_style now meta_by_path paths tbl =
     (case index_images embed_img zero_shot_style now meta_by_path paths tbl of
        Inl e \<Rightarrow> Inl e
      | Inr tbl' \<Rightarrow>
          (case build_faiss norm_L2sqr tbl' of Inl e \<Rightarrow> Inl e | Inr ix \<Rightarrow> Inr (tbl', ix)))"

section \<open>Trend computation (\<open>trend_metrics.py\<close>)\<close>

text \<open>\<open>Series.ewm(span=span)\<close> with the library's defaults (\<open>adjust=True\<close>,
  \<open>min_periods=0\<close>): the centre of mass is \<open>(span - 1) / 2\<close> and \<open>alpha = 1 / (1 + com)\<close>.\<close>

definition ewm_alpha :: "int \<Rightarrow> real" where
  "ewm_alpha spn = 1 / (1 + (real_of_int spn - 1) / 2)"

text \<open>The library's loop for \<open>mean()\<close> on a series without missing values, with
  \<open>new_wt = 1\<close> as \<open>adjust=True\<close> sets it: the running average \<open>weighted\<close> and the running
  weight \<open>old_wt\<close>.\<close>

fun ewm_loop :: "real \<Rightarrow> real \<Rightarrow> real \<Rightarrow> real list \<Rightarrow> real list" where
  "ewm_loop old_wt_factor weighted old_wt [] = []"
| "ewm_loop old_wt_factor weighted old_wt (cur # rest) =
     (let old_wt1 = old_wt * old_wt_factor;
          weighted' = (if weighted \<noteq> cur
                       then (old_wt1 * weighted + 1 * cur) / (old_wt1 + 1)
                       else weighted);
          old_wt' = old_wt1 + 1
      in weighted' # ewm_loop old_wt_factor weighted' old_wt' rest)"

fun ewm_mean :: "real \<Rightarrow> real list \<Rightarrow> real list" where
  "ewm_mean alpha [] = []"
| "ewm_mean alpha (x # xs) = x # ewm_loop (1 - alpha) x 1 xs"

text \<open>\<open>Series.diff().fillna(0)\<close>\<close>

fun diff_fillna :: "real list \<Rightarrow> real list" where
  "diff_fillna [] = []"
| "diff_fillna (x # xs) = 0 # map2 (-) xs (x # xs)"

text \<open>\<open>df.groupby(["style","day"]).size().reset_index(name="count")\<close>: one row per pair
  that occurs, in ascending order of the pair, with the number of its occurrences.\<close>

definition group_sizes :: "(string \<times> string) list \<Rightarrow> ((string \<times> string) \<times> int) list" where
  "group_sizes df = map (\<lambda>key. (key, int (count_list df key))) (sort_key (\<lambda>x. x) (remdups df))"

text \<open>The body of the loop over \<open>g.groupby("style")\<close> for one style.\<close>

definition style_trends :: "int \<Rightarrow> ((string \<times> string) \<times> int) list \<Rightarrow> string \<Rightarrow> trend list" where
  "style_trends spn g s =
     (let gdf = sort_key (\<lambda>r. snd (fst r)) (filter (\<lambda>r. fst (fst r) = s) g);
          ema = ewm_mean (ewm_alpha spn) (map (\<lambda>r. real_of_int (snd r)) gdf);
          velocity = diff_fillna ema
      in map (\<lambda>(r, e, v). \<lparr>tr_style = s, tr_day = snd (fst r), tr_count = snd r,
                             tr_ema = e, tr_velocity = v\<rparr>)
             (zip gdf (zip ema velocity)))"

text \<open>The rows that \<open>calc_trends\<close> writes to table \<open>trends\<close>. The input is the frame after
  \<open>parse_dates\<close> and \<open>.dt.date\<close>: per row of \<open>items\<close> its style and its day, \<open>None\<close> for a
  timestamp that did not parse (\<open>NaT\<close>), which \<open>groupby\<close> drops. \<open>ewm\<close> raises
  \<open>ValueError\<close> for a span below 1 (\<open>spn\<close> is the argument \<open>span\<close>). When the list \<open>out\<close> is
  empty, the \<open>INSERT\<close> is executed with an empty list of parameters and raises
  \<open>StatementError\<close>; the transaction is rolled back and the table keeps its rows.\<close>

definition calc_trends :: "int \<Rightarrow> (string \<times> string option) list \<Rightarrow> error + trend list" where
  "calc_trends spn df =
     (let g = group_sizes (List.map_filter (\<lambda>(s, d). map_option (\<lambda>day. (s, day)) d) df);
          styles = remdups (map (\<lambda>r. fst (fst r)) g)
      in if styles \<noteq> [] \<and> spn < 1 then Inl ValueError
         else
           let out = concat (map (style_trends spn g) styles)
           in if out = [] then Inl StatementError else Inr out)"

section \<open>Notions used to state the properties\<close>

text \<open>A row passes the style filter when the filter is empty or holds the row's style.\<close>

definition passes :: "string list \<Rightarrow> item \<Rightarrow> bool" where
  "passes styles row = (styles = [] \<or> style row \<in> set styles)"

text \<open>The candidates of a pool whose position resolves to a row, with their distances, in
  pool order.\<close>

definition resolved :: "item list \<Rightarrow> (int \<times> real) list \<Rightarrow> (item \<times> real) list" where
  "resolved items pool =
     List.map_filter (\<lambda>(idx, dst). case iloc items idx of Inl e \<Rightarrow> None | Inr row \<Rightarrow> Some (row, dst)) pool"

text \<open>The tuples \<open>(score, local_path, style)\<close> of the resolved candidates that pass the
  filter, in pool order.\<close>

definition accepted :: "(string \<rightharpoonup> real) \<Rightarrow> string list \<Rightarrow> (item \<times> real) list \<Rightarrow> chosen" where
  "accepted lat styles rc =
     map (\<lambda>(row, dst). (score lat dst (style row), local_path row, style row))
       (filter (\<lambda>(row, dst). passes styles row) rc)"

text \<open>Every candidate seen so far is in the heap or is no better than its low.\<close>

definition heap_inv :: "nat \<Rightarrow> (real \<times> int) list \<Rightarrow> (real \<times> int) list \<Rightarrow> bool" where
  "heap_inv n h seen \<longleftrightarrow>
     sorted h \<and> length h \<le> n \<and> (length h < n \<longrightarrow> set seen \<subseteq> set h)
     \<and> (\<forall>c \<in> set seen. c \<in> set h \<or> (h \<noteq> [] \<and> fst c \<le> fst (hd h)))"

text \<open>The two rows that one pass of the entry point's loop appends for the image at path
  \<open>p\<close>: the first with the metadata built in the loop, the second with the metadata looked
  up in \<open>meta_by_path\<close>.\<close>

definition fresh_row :: "(string \<Rightarrow> real list) \<Rightarrow> (real list \<Rightarrow> string \<times> real) \<Rightarrow> (string \<Rightarrow> string)
    \<Rightarrow> string \<Rightarrow> item" where
  "fresh_row embed_img zero_shot_style now p =
     \<lparr>source = ''reddit'', url = [], local_path = p, ts = now p,
      style = fst (zero_shot_style (embed_img p)), prob = snd (zero_shot_style (embed_img p)),
      emb = embed_img p\<rparr>"

definition csv_row :: "(string \<Rightarrow> real list) \<Rightarrow> (real list \<Rightarrow> string \<times> real)
    \<Rightarrow> (string \<rightharpoonup> (string \<rightharpoonup> string)) \<Rightarrow> string \<Rightarrow> item" where
  "csv_row embed_img zero_shot_style meta_by_path p =
     (let meta = (case meta_by_path p of None \<Rightarrow> Map.empty | Some m \<Rightarrow> m)
      in \<lparr>source = dict_get meta ''sub'' ''reddit'', url = dict_get meta ''url'' [],
          local_path = p, ts = dict_get meta ''ts'' [],
          style = fst (zero_shot_style (embed_img p)), prob = snd (zero_shot_style (embed_img p)),
          emb = embed_img p\<rparr>)"

section \<open>Example data\<close>

definition example_item :: "string \<Rightarrow> string \<Rightarrow> real list \<Rightarrow> item" where
  "example_item p s e =
     \<lparr>source = ''reddit'', url = [], local_path = p, ts = ''2024-01-02T10:00:00'',
      style = s, prob = 1, emb = e\<rparr>"

text \<open>Two items whose combined scores are equal: \<open>a.jpg\<close> is the query itself (similarity
  1, no trend), \<open>b.jpg\<close> has similarity 1/2 and a style with latest velocity 2 (the trend
  rows are those of daily counts 1 and 4 with span 3).\<close>

definition tie_index :: faiss_index where
  "tie_index = \<lparr>ix_d = 4, ix_xb = [[1, 0, 0, 0], [1/2, 1/2, 1/2, 1/2]]\<rparr>"

definition tie_items :: "item list" where
  "tie_items = [example_item ''a.jpg'' ''formal'' [1, 0, 0, 0],
                example_item ''b.jpg'' ''vintage'' [1/2, 1/2, 1/2, 1/2]]"

definition tie_trends :: "trend list" where
  "tie_trends =
     [\<lparr>tr_style = ''vintage'', tr_day = ''2024-01-01'', tr_count = 1, tr_ema = 1, tr_velocity = 0\<rparr>,
      \<lparr>tr_style = ''vintage'', tr_day = ''2024-01-02'', tr_count = 4, tr_ema = 3, tr_velocity = 2\<rparr>]"

text \<open>A catalog of eleven unit vectors, indexed in descending order of their similarity to
  the query \<open>[1, 0]\<close>; \<open>catalog_pool\<close> is the search result for a pool of ten.\<close>

definition catalog_index :: faiss_index where
  "catalog_index = \<lparr>ix_d = 2, ix_xb =
     [[1, 0], [24/25, 7/25], [12/13, 5/13], [15/17, 8/17], [4/5, 3/5], [21/29, 20/29],
      [20/29, 21/29], [3/5, 4/5], [8/17, 15/17], [5/13, 12/13], [0, 1]]\<rparr>"

definition catalog_items :: "item list" where
  "catalog_items =
     [example_item ''p00.jpg'' ''formal'' [1, 0],
      example_item ''p01.jpg'' ''formal'' [24/25, 7/25],
      example_item ''p02.jpg'' ''formal'' [12/13, 5/13],
      example_item ''p03.jpg'' ''grunge'' [15/17, 8/17],
      example_item ''p04.jpg'' ''formal'' [4/5, 3/5],
      example_item ''p05.jpg'' ''formal'' [21/29, 20/29],
      example_item ''p06.jpg'' ''formal'' [20/29, 21/29],
      example_item ''p07.jpg'' ''formal'' [3/5, 4/5],
      example_item ''p08.jpg'' ''formal'' [8/17, 15/17],
      example_item ''p09.jpg'' ''formal'' [5/13, 12/13],
      example_item ''p10.jpg'' ''vintage'' [0, 1]]"

definition catalog_pool :: "(int \<times> real) list" where
  "catalog_pool = [(0, 1), (1, 24/25), (2, 12/13), (3, 15/17), (4, 4/5), (5, 21/29),
                   (6, 20/29), (7, 3/5), (8, 8/17), (9, 5/13)]"

text \<open>An index of six unit vectors stored in no order of similarity to the query
  \<open>[1, 0]\<close>; \<open>shuffled_pool\<close> is the search result for a pool of five.\<close>

definition shuffled_index :: faiss_index where
  "shuffled_index = \<lparr>ix_d = 2, ix_xb =
     [[3/5, 4/5], [1, 0], [0, 1], [4/5, 3/5], [5/13, 12/13], [12/13, 5/13]]\<rparr>"

definition shuffled_items :: "item list" where
  "shuffled_items =
     [example_item ''s0.jpg'' ''grunge'' [3/5, 4/5],
      example_item ''s1.jpg'' ''formal'' [1, 0],
      example_item ''s2.jpg'' ''grunge'' [0, 1],
      example_item ''s3.jpg'' ''grunge'' [4/5, 3/5],
      example_item ''s4.jpg'' ''formal'' [5/13, 12/13],
      example_item ''s5.jpg'' ''formal'' [12/13, 5/13]]"

definition shuffled_pool :: "(int \<times> real) list" where
  "shuffled_pool = [(1, 1), (5, 12/13), (3, 4/5), (0, 3/5), (4, 5/13)]"

text \<open>A table with one embedding of norm 5, one zero embedding and one embedding whose
  square underflows in \<open>float32\<close>, and a computed squared norm for it: the exact sum of
  squares, except that a sum below \<open>2 ^ -150\<close> comes out as 0. On these three rows it is the
  \<open>float32\<close> result.\<close>

definition zero_items :: "item list" where
  "zero_items = [example_item ''n.jpg'' ''formal'' [3, 4], example_item ''z.jpg'' ''formal'' [0, 0],
                 example_item ''t.jpg'' ''formal'' [1 / 2 ^ 100, 0]]"

definition underflow_norm :: "real list \<Rightarrow> real" where
  "underflow_norm x = (if sum_squares x < 1 / 2 ^ 150 then 0 else sum_squares x)"

text \<open>Metadata for one image, as read from the CSV of public metadata.\<close>

definition example_meta :: "string \<rightharpoonup> (string \<rightharpoonup> string)" where
  "example_meta = Map.empty(''data/images/a.jpg'' \<mapsto>
     Map.empty(''local_path'' \<mapsto> ''data/images/a.jpg'', ''sub'' \<mapsto> ''malefashion'',
               ''url'' \<mapsto> ''https://i.redd.it/a.jpg'', ''ts'' \<mapsto> ''2024-01-01T08:30:00''))"

text \<open>The parsed frame of a catalog in which style \<open>streetwear\<close> has 2, 2, 8 and 2 items on
  four consecutive days (rows in no particular order, one of them with an unparsed
  timestamp), and the rows of \<open>trends\<close> computed from it with span 3.\<close>

definition streetwear_df :: "(string \<times> string option) list" where
  "streetwear_df =
     replicate 8 (''streetwear'', Some ''2024-01-03'')
     @ [(''streetwear'', None), (''formal'', Some ''2024-01-02'')]
     @ replicate 2 (''streetwear'', Some ''2024-01-01'')
     @ replicate 2 (''streetwear'', Some ''2024-01-04'')
     @ replicate 2 (''streetwear'', Some ''2024-01-02'')"

definition streetwear_trends :: "trend list" where
  "streetwear_trends =
     [\<lparr>tr_style = ''formal'', tr_day = ''2024-01-02'', tr_count = 1, tr_ema = 1, tr_velocity = 0\<rparr>,
      \<lparr>tr_style = ''streetwear'', tr_day = ''2024-01-01'', tr_count = 2, tr_ema = 2, tr_velocity = 0\<rparr>,
      \<lparr>tr_style = ''streetwear'', tr_day = ''2024-01-02'', tr_count = 2, tr_ema = 2, tr_velocity = 0\<rparr>,
      \<lparr>tr_style = ''streetwear'', tr_day = ''2024-01-03'', tr_count = 8, tr_ema = 38/7,
        tr_velocity = 24/7\<rparr>,
      \<lparr>tr_style = ''streetwear'', tr_day = ''2024-01-04'', tr_count = 2, tr_ema = 18/5,
        tr_velocity = - 64/35\<rparr>]"

section \<open>The candidate walk\<close>

lemma resolved_Cons:
  "iloc items idx = Inr row \<Longrightarrow> resolved items ((idx, dst) # rest) = (row, dst) # resolved items rest"
  by (simp add: resolved_def)

lemma walk_skip:
  "iloc items idx = Inr row \<Longrightarrow> \<not> passes styles row
   \<Longrightarrow> walk items lat styles k ((idx, dst) # rest) acc = walk items lat styles k rest acc"
  by (auto simp: passes_def)

lemma walk_full:
  "iloc items idx = Inr row \<Longrightarrow> passes styles row \<Longrightarrow> k \<le> int (length acc) + 1
   \<Longrightarrow> walk items lat styles k ((idx, dst) # rest) acc
       = Inr (acc @ [(score lat dst (style row), local_path row, style row)])"
  by (auto simp: passes_def Let_def)

lemma walk_more:
  "iloc items idx = Inr row \<Longrightarrow> passes styles row \<Longrightarrow> \<not> k \<le> int (length acc) + 1
   \<Longrightarrow> walk items lat styles k ((idx, dst) # rest) acc
       = walk items lat styles k rest (acc @ [(score lat dst (style row), local_path row, style row)])"
  by (auto simp: passes_def Let_def)

lemma walk_resolved:
  assumes "\<forall>(idx, dst) \<in> set pool. \<exists>row. iloc items idx = Inr row"
    and "int (length acc) < k"
  shows "walk items lat styles k pool acc
         = Inr (acc @ take (nat k - length acc) (accepted lat styles (resolved items pool)))"
  using assms
proof (induction pool arbitrary: acc)
  case Nil
  then show ?case by (simp add: resolved_def accepted_def)
next
  case (Cons c rest)
  obtain idx dst where c: "c = (idx, dst)" by (cases c)
  from Cons.prems(1) c obtain row where row: "iloc items idx = Inr row" by auto
  have rest: "\<forall>(idx, dst) \<in> set rest. \<exists>row. iloc items idx = Inr row"
    using Cons.prems(1) by simp
  show ?case
  proof (cases "passes styles row")
    case False
    have "walk items lat styles k (c # rest) acc = walk items lat styles k rest acc"
      unfolding c by (rule walk_skip [OF row False])
    also have "\<dots> = Inr (acc @ take (nat k - length acc) (accepted lat styles (resolved items rest)))"
      by (rule Cons.IH [OF rest Cons.prems(2)])
    finally show ?thesis using False by (simp add: c resolved_Cons [OF row] accepted_def)
  next
    case True
    let ?e = "(score lat dst (style row), local_path row, style row)"
    have acc: "accepted lat styles (resolved items (c # rest))
               = ?e # accepted lat styles (resolved items rest)"
      using True by (simp add: c resolved_Cons [OF row] accepted_def)
    show ?thesis
    proof (cases "k \<le> int (length (acc @ [?e]))")
      case full: True
      with Cons.prems(2) have "nat k - length acc = 1" by simp
      moreover have "walk items lat styles k (c # rest) acc = Inr (acc @ [?e])"
        unfolding c using full by (intro walk_full [OF row True]) simp
      ultimately show ?thesis by (simp add: acc)
    next
      case more: False
      then have lt: "int (length (acc @ [?e])) < k" by simp
      have "walk items lat styles k (c # rest) acc = walk items lat styles k rest (acc @ [?e])"
        unfolding c using more by (intro walk_more [OF row True]) simp
      also have "\<dots> = Inr ((acc @ [?e]) @ take (nat k - length (acc @ [?e]))
                              (accepted lat styles (resolved items rest)))"
        by (rule Cons.IH [OF rest lt])
      also have "\<dots> = Inr (acc @ take (nat k - length acc) (?e # accepted lat styles (resolved items rest)))"
      proof -
        from lt have "nat k - length acc = Suc (nat k - length (acc @ [?e]))" by simp
        then show ?thesis by simp
      qed
      finally show ?thesis by (simp add: acc)
    qed
  qed
qed

lemma walk_sound:
  assumes "walk items lat styles k pool acc = Inr R" and "c \<in> set R"
  shows "c \<in> set acc \<or>
         (\<exists>idx dst row. (idx, dst) \<in> set pool \<and> iloc items idx = Inr row \<and> passes styles row
            \<and> c = (score lat dst (style row), local_path row, style row))"
  using assms
proof (induction pool arbitrary: acc)
  case Nil
  then show ?case by simp
next
  case (Cons p rest)
  obtain idx dst where p: "p = (idx, dst)" by (cases p)
  from Cons.prems(1) p obtain row where row: "iloc items idx = Inr row"
    by (auto split: sum.splits)
  show ?case
  proof (cases "passes styles row")
    case False
    have "walk items lat styles k rest acc = Inr R"
      using Cons.prems(1) unfolding p walk_skip [OF row False] .
    from Cons.IH [OF this Cons.prems(2)] show ?thesis by auto
  next
    case True
    let ?e = "(score lat dst (style row), local_path row, style row)"
    show ?thesis
    proof (cases "k \<le> int (length (acc @ [?e]))")
      case full: True
      then have le: "k \<le> int (length acc) + 1" by simp
      from Cons.prems(1) have "R = acc @ [?e]" unfolding p walk_full [OF row True le] by simp
      with Cons.prems(2) have "c \<in> set acc \<or> c = ?e" by auto
      then show ?thesis using row True p by auto
    next
      case more: False
      then have nle: "\<not> k \<le> int (length acc) + 1" by simp
      from Cons.prems(1) have "walk items lat styles k rest (acc @ [?e]) = Inr R"
        unfolding p walk_more [OF row True nle] .
      from Cons.IH [OF this Cons.prems(2)]
      have "c \<in> set acc \<or> c = ?e \<or> (\<exists>idx dst row. (idx, dst) \<in> set rest \<and> iloc items idx = Inr row \<and> passes styles row
            \<and> c = (score lat dst (style row), local_path row, style row))" by auto
      then show ?thesis using row True p by auto
    qed
  qed
qed

lemma heap_add_sorted:
  assumes "sorted h"
  shows "sorted (heap_add n h c)"
proof (cases "length h < n")
  case True
  with assms show ?thesis by (simp add: heap_add_def sorted_insort)
next
  case False
  show ?thesis
  proof (cases h)
    case Nil
    then show ?thesis by (simp add: heap_add_def)
  next
    case (Cons low rest)
    with assms have "sorted rest" by simp
    then have "sorted (insort c rest)" by (simp only: sorted_insort)
    with assms False show ?thesis by (simp add: heap_add_def Cons del: insort_key.simps)
  qed
qed

lemma heap_add_length: "length h \<le> n \<Longrightarrow> length (heap_add n h c) = min n (Suc (length h))"
  by (cases h) (auto simp: heap_add_def)

lemma heap_add_set: "set (heap_add n h c) \<subseteq> insert c (set h)"
  by (cases h) (auto simp: heap_add_def set_insort_key)

lemma foldl_heap_sorted: "sorted h \<Longrightarrow> sorted (foldl (heap_add n) h cs)"
  by (induction cs arbitrary: h) (simp_all add: heap_add_sorted)

lemma foldl_heap_length:
  "length h \<le> n \<Longrightarrow> length (foldl (heap_add n) h cs) = min n (length h + length cs)"
proof (induction cs arbitrary: h)
  case Nil
  then show ?case by simp
next
  case (Cons c cs)
  from Cons.prems have l: "length (heap_add n h c) = min n (Suc (length h))"
    by (rule heap_add_length)
  then have "length (heap_add n h c) \<le> n" by simp
  from Cons.IH [OF this] l show ?case by simp
qed

lemma foldl_heap_set: "set (foldl (heap_add n) h cs) \<subseteq> set h \<union> set cs"
proof (induction cs arbitrary: h)
  case Nil
  then show ?case by simp
next
  case (Cons c cs)
  from Cons.IH [of "heap_add n h c"] heap_add_set [of n h c] show ?case by auto
qed

lemma sorted_hd_le:
  fixes h :: "(real \<times> int) list"
  assumes "sorted h" and "e \<in> set h"
  shows "fst (hd h) \<le> fst e"
proof (cases h)
  case Nil
  with assms(2) show ?thesis by simp
next
  case (Cons t r)
  with assms have "t \<le> e" by auto
  then show ?thesis by (auto simp: Cons less_eq_prod_def)
qed

lemma heap_inv_step:
  assumes "heap_inv n h seen" and "0 < n"
  shows "heap_inv n (heap_add n h c) (seen @ [c])"
proof (cases "length h < n")
  case True
  then have h': "heap_add n h c = insort c h" by (simp add: heap_add_def)
  from assms(1) True have sub: "set seen \<subseteq> set h" and s: "sorted h"
    by (simp_all add: heap_inv_def)
  show ?thesis
    unfolding heap_inv_def h' using True sub s
    by (auto simp: sorted_insort set_insort_key)
next
  case False
  with assms have full: "length h = n" and s: "sorted h"
    and old: "\<forall>c \<in> set seen. c \<in> set h \<or> (h \<noteq> [] \<and> fst c \<le> fst (hd h))"
    by (simp_all add: heap_inv_def)
  from full assms(2) obtain low rest where h: "h = low # rest" by (cases h) auto
  show ?thesis
  proof (cases "fst low < fst c")
    case keep: False
    then have h': "heap_add n h c = h" using False by (simp add: heap_add_def h)
    from keep have "fst c \<le> fst (hd h)" by (simp add: h)
    then show ?thesis unfolding heap_inv_def h' using s full old by (auto simp: h)
  next
    case True
    then have h': "heap_add n h c = insort c rest" using False by (simp add: heap_add_def h)
    let ?h' = "insort c rest"
    from s have sr: "sorted rest" by (simp add: h)
    then have s': "sorted ?h'" by (simp add: sorted_insort)
    have ne: "?h' \<noteq> []" by (metis insort_not_Nil)
    have ge: "fst low \<le> fst e" if "e \<in> set ?h'" for e
    proof -
      from that have "e = c \<or> e \<in> set rest" by (simp add: set_insort_key)
      then show ?thesis
      proof
        assume "e = c" with True show ?thesis by simp
      next
        assume "e \<in> set rest"
        with s have "e \<in> set h" by (simp add: h)
        from sorted_hd_le [OF s this] show ?thesis by (simp add: h)
      qed
    qed
    from ne have "hd ?h' \<in> set ?h'" by simp
    from ge [OF this] have top_le: "fst low \<le> fst (hd ?h')" .
    have "d \<in> set ?h' \<or> (?h' \<noteq> [] \<and> fst d \<le> fst (hd ?h'))" if "d \<in> set (seen @ [c])" for d
    proof -
      from that have "d = c \<or> d \<in> set seen" by auto
      then show ?thesis
      proof
        assume "d = c" then show ?thesis by (simp add: set_insort_key)
      next
        assume "d \<in> set seen"
        with old have "d \<in> set h \<or> fst d \<le> fst low" by (auto simp: h)
        then have "d \<in> set rest \<or> fst d \<le> fst low" by (auto simp: h)
        with top_le ne show ?thesis by (auto simp: set_insort_key)
      qed
    qed
    moreover have "length ?h' = n" using full by (simp add: h)
    ultimately show ?thesis unfolding heap_inv_def h' using s' by auto
  qed
qed

lemma heap_inv_foldl:
  assumes "0 < n"
  shows "heap_inv n h seen \<Longrightarrow> heap_inv n (foldl (heap_add n) h cs) (seen @ cs)"
proof (induction cs arbitrary: h seen)
  case Nil
  then show ?case by simp
next
  case (Cons c cs)
  from heap_inv_step [OF Cons.prems assms, of c]
  have "heap_inv n (heap_add n h c) (seen @ [c])" .
  from Cons.IH [OF this] show ?case by simp
qed

lemma length_ranked: "length (ranked ix q n) = min n (length (ix_xb ix))"
  by (simp add: ranked_def foldl_heap_length)

lemma set_candidates:
  "set (map (\<lambda>(i, x). (fvec_inner_product q x, int i)) (enumerate 0 xb))
   = {(fvec_inner_product q (xb ! j), int j) | j. j < length xb}"
proof -
  have "map (\<lambda>(i, x). (fvec_inner_product q x, int i)) (enumerate 0 xb)
        = map (\<lambda>j. (fvec_inner_product q (xb ! j), int j)) [0..<length xb]"
    by (rule nth_equalityI) (simp_all add: nth_enumerate_eq)
  then show ?thesis by auto
qed

lemma set_ranked:
  assumes "(idx, dst) \<in> set (ranked ix q n)"
  shows "0 \<le> idx \<and> idx < int (length (ix_xb ix))
         \<and> dst = fvec_inner_product q (ix_xb ix ! nat idx)"
proof -
  let ?cs = "map (\<lambda>(i, x). (fvec_inner_product q x, int i)) (enumerate 0 (ix_xb ix))"
  from assms have "(dst, idx) \<in> set (foldl (heap_add n) [] ?cs)"
    by (auto simp: ranked_def)
  with foldl_heap_set [of n "[]" ?cs] have "(dst, idx) \<in> set ?cs" by auto
  then obtain j where "j < length (ix_xb ix)" "idx = int j"
    "dst = fvec_inner_product q (ix_xb ix ! j)"
    unfolding set_candidates by auto
  then show ?thesis by simp
qed

lemma sorted_ranked: "sorted_wrt (\<lambda>a b. snd b \<le> snd a) (ranked ix q n)"
proof -
  let ?h = "foldl (heap_add n) []
              (map (\<lambda>(i, x). (fvec_inner_product q x, int i)) (enumerate 0 (ix_xb ix)))"
  have "sorted ?h" by (rule foldl_heap_sorted) simp
  then have "sorted_wrt (\<lambda>a b. fst a \<le> fst b) ?h"
    by (rule sorted_wrt_mono_rel [rotated]) (auto simp: less_eq_prod_def)
  then have "sorted_wrt (\<lambda>a b. fst b \<le> fst a) (rev ?h)" by (simp add: sorted_wrt_rev)
  then show ?thesis by (simp add: ranked_def sorted_wrt_map case_prod_beta)
qed

lemma top_ranked:
  assumes "0 < n" and "j < length (ix_xb ix)"
    and "int j \<notin> fst ` set (ranked ix q n)"
    and "(idx, dst) \<in> set (ranked ix q n)"
  shows "fvec_inner_product q (ix_xb ix ! j) \<le> dst"
proof -
  let ?cs = "map (\<lambda>(i, x). (fvec_inner_product q x, int i)) (enumerate 0 (ix_xb ix))"
  let ?h = "foldl (heap_add n) [] ?cs"
  have "heap_inv n [] []" using assms(1) by (simp add: heap_inv_def)
  from heap_inv_foldl [OF assms(1) this, of ?cs] have inv: "heap_inv n ?h ?cs" by simp
  let ?c = "(fvec_inner_product q (ix_xb ix ! j), int j)"
  from assms(2) have "?c \<in> set ?cs" unfolding set_candidates by blast
  moreover from assms(3) have "?c \<notin> set ?h" by (force simp: ranked_def image_iff)
  ultimately have "?h \<noteq> []" and le: "fst ?c \<le> fst (hd ?h)"
    using inv by (auto simp: heap_inv_def)
  from assms(4) have "(dst, idx) \<in> set ?h" by (auto simp: ranked_def)
  moreover from inv have "sorted ?h" by (simp add: heap_inv_def)
  ultimately have "fst (hd ?h) \<le> dst" using sorted_hd_le [of ?h "(dst, idx)"] by simp
  with le show ?thesis by simp
qed

lemma length_fvec_renorm_L2: "length (fvec_renorm_L2 nrm x) = length x"
  by (simp add: fvec_renorm_L2_def Let_def)

lemma index_search_Inr:
  assumes "length q = ix_d ix" and "0 < n"
  shows "index_search ix q n
         = Inr (ranked ix q (nat n) @ replicate (nat n - length (ix_xb ix)) (- 1, neutral_dist))"
  using assms by (simp add: index_search_def)

lemma iloc_last: "rows \<noteq> [] \<Longrightarrow> iloc rows (- 1) = Inr (last rows)"
  by (cases rows rule: rev_cases) (simp_all add: iloc_def Let_def nth_append)

lemma iloc_nonneg: "0 \<le> idx \<Longrightarrow> idx < int (length rows) \<Longrightarrow> iloc rows idx = Inr (rows ! nat idx)"
  by (simp add: iloc_def)

lemma pool_resolves:
  assumes "items \<noteq> []" and "length (ix_xb ix) \<le> length items"
  shows "\<forall>(idx, dst) \<in> set (ranked ix q m @ replicate j (- 1, neutral_dist)).
           \<exists>row. iloc items idx = Inr row"
proof -
  have "\<exists>row. iloc items idx = Inr row" if "(idx, dst) \<in> set (ranked ix q m)" for idx dst
    using set_ranked [OF that] assms(2) by (simp add: iloc_nonneg)
  moreover have "\<exists>row. iloc items (- 1) = Inr row" using iloc_last [OF assms(1)] by simp
  ultimately show ?thesis by auto
qed


lemma sort_reverse_sorted: "sorted_wrt (\<lambda>a b. b \<le> a) (sort_reverse chosen)"
  unfolding sort_reverse_def sorted_wrt_rev by simp

lemma mset_sort_reverse: "mset (sort_reverse chosen) = mset chosen"
  by (simp add: sort_reverse_def)

lemma recommend_chosen_cases:
  assumes "recommend_chosen nrm index items trends q styles k = Inr R"
  obtains pool chosen where "index_search index (fvec_renorm_L2 nrm q) (k * 5) = Inr pool"
    and "walk items (latest trends) styles k pool [] = Inr chosen"
    and "R = sort_reverse chosen"
  using assms by (auto simp: recommend_chosen_def split: sum.splits)

lemmas example_defs =
  tie_index_def tie_items_def tie_trends_def example_item_def
  recommend_def recommend_chosen_def index_search_def ranked_def heap_add_def fvec_renorm_L2_def
  sum_squares_def fvec_inner_product_def iloc_def latest_def latest_get_def score_def
  trend_boost_def sort_reverse_def enumerate_eq_zip upt_rec

lemma tie_pool:
  "index_search tie_index (fvec_renorm_L2 sum_squares [1, 0, 0, 0]) (2 * 5)
   = Inr ([(0, 1), (1, 1/2)] @ replicate 8 (- 1, neutral_dist))"
  by (simp add: example_defs)

lemma tie_chosen:
  "recommend_chosen sum_squares tie_index tie_items tie_trends [1, 0, 0, 0] [] 2
   = Inr [(1, ''b.jpg'', ''vintage''), (1, ''a.jpg'', ''formal'')]"
  by (simp add: example_defs neutral_dist_def eval_nat_numeral)

lemma length_pool:
  "length (ranked ix q (nat n) @ replicate (nat n - length (ix_xb ix)) (c, d)) = nat n"
  by (simp add: length_ranked)

lemma search_renorm:
  assumes "0 < k" and "length q = ix_d index"
  shows "index_search index (fvec_renorm_L2 nrm q) (k * 5)
         = Inr (ranked index (fvec_renorm_L2 nrm q) (nat (k * 5))
                @ replicate (nat (k * 5) - length (ix_xb index)) (- 1, neutral_dist))"
  using assms by (intro index_search_Inr) (simp_all add: length_fvec_renorm_L2)

lemma resolved_length:
  "\<forall>(idx, dst) \<in> set pool. \<exists>row. iloc items idx = Inr row
   \<Longrightarrow> length (resolved items pool) = length pool"
proof (induction pool)
  case Nil
  then show ?case by (simp add: resolved_def)
next
  case (Cons c rest)
  obtain idx dst where c: "c = (idx, dst)" by (cases c)
  from Cons.prems c obtain row where row: "iloc items idx = Inr row" by auto
  from Cons show ?case by (simp add: c resolved_Cons [OF row])
qed

lemma resolved_append: "resolved items (xs @ ys) = resolved items xs @ resolved items ys"
  by (simp add: resolved_def map_filter_def)

lemma accepted_append: "accepted lat styles (xs @ ys) = accepted lat styles xs @ accepted lat styles ys"
  by (simp add: accepted_def)

lemma accepted_no_filter:
  "accepted lat [] rc = map (\<lambda>(row, dst). (score lat dst (style row), local_path row, style row)) rc"
  by (simp add: accepted_def passes_def)

lemma accepted_none:
  "styles \<noteq> [] \<Longrightarrow> \<forall>(row, dst) \<in> set rc. style row \<notin> set styles \<Longrightarrow> accepted lat styles rc = []"
  by (auto simp: accepted_def passes_def filter_empty_conv)

lemma recommend_chosen_resolved:
  assumes "index_search index (fvec_renorm_L2 nrm q) (k * 5) = Inr pool"
    and "\<forall>(idx, dst) \<in> set pool. \<exists>row. iloc items idx = Inr row"
    and "0 < k"
  shows "walk items (latest trends) styles k pool []
           = Inr (take (nat k) (accepted (latest trends) styles (resolved items pool)))"
    and "recommend_chosen nrm index items trends q styles k
           = Inr (sort_reverse (take (nat k) (accepted (latest trends) styles (resolved items pool))))"
proof -
  from assms(3) have "int (length ([] :: chosen)) < k" by simp
  from walk_resolved [OF assms(2) this, of "latest trends" styles]
  show w: "walk items (latest trends) styles k pool []
           = Inr (take (nat k) (accepted (latest trends) styles (resolved items pool)))"
    by simp
  show "recommend_chosen nrm index items trends q styles k
           = Inr (sort_reverse (take (nat k) (accepted (latest trends) styles (resolved items pool))))"
    by (simp add: recommend_chosen_def assms(1) w)
qed

lemma resolved_filler:
  "items \<noteq> [] \<Longrightarrow> resolved items (replicate m (- 1, d)) = replicate m (last items, d)"
  by (induction m) (simp_all add: resolved_def iloc_last)

lemma accepted_filler:
  "passes styles row \<Longrightarrow> accepted lat styles (replicate m (row, d))
     = replicate m (score lat d (style row), local_path row, style row)"
  by (induction m) (simp_all add: accepted_def)

lemma catalog_search:
  "index_search catalog_index (fvec_renorm_L2 sum_squares [1, 0]) (2 * 5) = Inr catalog_pool"
  by (simp add: catalog_index_def catalog_pool_def index_search_def ranked_def heap_add_def fvec_renorm_L2_def
      sum_squares_def fvec_inner_product_def enumerate_eq_zip upt_rec)

lemma catalog_walk_vintage:
  "walk catalog_items (latest []) [''vintage''] 2 catalog_pool [] = Inr []"
  by (simp add: catalog_items_def catalog_pool_def example_item_def iloc_def)

lemma catalog_walk_grunge:
  "walk catalog_items (latest []) [''grunge'', ''vintage''] 2 catalog_pool []
   = Inr [(15/17, ''p03.jpg'', ''grunge'')]"
  by (simp add: catalog_items_def catalog_pool_def example_item_def iloc_def score_def
      trend_boost_def latest_get_def latest_def)

lemma catalog_vintage:
  "recommend sum_squares catalog_index catalog_items [] [1, 0] [''vintage''] 2 = Inr ([], [])"
  using catalog_search catalog_walk_vintage
  by (simp add: recommend_def recommend_chosen_def sort_reverse_def)

lemma catalog_grunge:
  "recommend_chosen sum_squares catalog_index catalog_items [] [1, 0] [''grunge'', ''vintage''] 2
   = Inr [(15/17, ''p03.jpg'', ''grunge'')]"
  using catalog_search catalog_walk_grunge
  by (simp add: recommend_chosen_def sort_reverse_def)

lemma catalog_accepted_grunge:
  "accepted (latest []) [''grunge'', ''vintage''] (resolved catalog_items catalog_pool)
   = [(15/17, ''p03.jpg'', ''grunge'')]"
  by (simp add: catalog_items_def catalog_pool_def example_item_def iloc_def score_def
      trend_boost_def latest_get_def latest_def accepted_def resolved_def passes_def)

lemma tie_pool3:
  "index_search tie_index (fvec_renorm_L2 sum_squares [1, 0, 0, 0]) (3 * 5)
   = Inr ([(0, 1), (1, 1/2)] @ replicate 13 (- 1, neutral_dist))"
  by (simp add: example_defs)

lemma tie_chosen3:
  "recommend_chosen sum_squares tie_index tie_items tie_trends [1, 0, 0, 0] [] 3
   = Inr [(1, ''b.jpg'', ''vintage''), (1, ''a.jpg'', ''formal''),
          (neutral_dist + 1/2, ''b.jpg'', ''vintage'')]"
  by (simp add: example_defs neutral_dist_def eval_nat_numeral)

lemma take_append_replicate_mem:
  "length A < k \<Longrightarrow> 0 < m \<Longrightarrow> x \<in> set (take k (A @ replicate m x))"
  by (cases m) (simp_all add: take_Cons')

lemma accepted_filler_none:
  "\<not> passes styles row \<Longrightarrow> accepted lat styles (replicate m (row, d)) = []"
  by (induction m) (simp_all add: accepted_def)

lemma pool_take_drop:
  "take (length (ix_xb ix)) (ranked ix q n @ replicate (n - length (ix_xb ix)) c) = ranked ix q n"
  "drop (length (ix_xb ix)) (ranked ix q n @ replicate (n - length (ix_xb ix)) c)
   = replicate (n - length (ix_xb ix)) c"
  by (simp_all add: length_ranked)

lemma shuffled_search:
  "index_search shuffled_index (fvec_renorm_L2 sum_squares [1, 0]) (1 * 5) = Inr shuffled_pool"
  by (simp add: shuffled_index_def shuffled_pool_def index_search_def ranked_def heap_add_def
      fvec_renorm_L2_def sum_squares_def fvec_inner_product_def enumerate_eq_zip upt_rec)

lemma shuffled_grunge:
  "recommend_chosen sum_squares shuffled_index shuffled_items [] [1, 0] [''grunge''] 1
   = Inr [(4/5, ''s3.jpg'', ''grunge'')]"
  using shuffled_search
  by (simp add: recommend_chosen_def sort_reverse_def shuffled_items_def shuffled_pool_def
      example_item_def iloc_def score_def trend_boost_def latest_get_def latest_def)

lemma tie_formal3:
  "recommend_chosen sum_squares tie_index tie_items tie_trends [1, 0, 0, 0] [''formal''] 3
   = Inr [(1, ''a.jpg'', ''formal'')]"
  by (simp add: example_defs neutral_dist_def eval_nat_numeral)

lemma tie_build: "build_faiss sum_squares tie_items = Inr (Some tie_index)"
  by (simp add: build_faiss_def normalize_L2_def fvec_renorm_L2_def sum_squares_def
      tie_items_def tie_index_def example_item_def)

section \<open>Properties of \<open>recommend\<close>\<close>

text \<open>
  C2 (as amended). The list \<open>chosen\<close> that \<open>recommend\<close> returns is a rearrangement of the
  accepted candidates in descending order of the whole tuple \<open>(score, local_path, style)\<close>:
  scores never increase along the list, entries with equal score are in descending order
  of \<open>local_path\<close>, and entries with equal score and path in descending order of \<open>style\<close>.
  Neither the rank in the candidate pool nor an item id takes part in the order.
\<close>

theorem recommend_sorted:
  assumes "recommend_chosen nrm index items trends q styles k = Inr R"
  shows "sorted_wrt (\<lambda>a b. fst b < fst a
            \<or> (fst a = fst b \<and> (fst (snd b) < fst (snd a)
                 \<or> (fst (snd a) = fst (snd b) \<and> snd (snd b) \<le> snd (snd a))))) R
         \<and> (\<exists>pool chosen. index_search index (fvec_renorm_L2 nrm q) (k * 5) = Inr pool
               \<and> walk items (latest trends) styles k pool [] = Inr chosen
               \<and> mset R = mset chosen)"
proof -
  from assms obtain pool chosen where
    p: "index_search index (fvec_renorm_L2 nrm q) (k * 5) = Inr pool"
    and w: "walk items (latest trends) styles k pool [] = Inr chosen"
    and R: "R = sort_reverse chosen"
    by (rule recommend_chosen_cases)
  have "sorted_wrt (\<lambda>a b. b \<le> a) R" unfolding R by (rule sort_reverse_sorted)
  then have "sorted_wrt (\<lambda>a b. fst b < fst a
            \<or> (fst a = fst b \<and> (fst (snd b) < fst (snd a)
                 \<or> (fst (snd a) = fst (snd b) \<and> snd (snd b) \<le> snd (snd a))))) R"
    by (rule sorted_wrt_mono_rel [rotated]) (auto simp: less_eq_prod_def)
  moreover have "mset R = mset chosen" unfolding R by (rule mset_sort_reverse)
  ultimately show ?thesis using p w by blast
qed

theorem recommend_sorted_witness:
  "recommend_chosen sum_squares tie_index tie_items tie_trends [1, 0, 0, 0] [] 2
     = Inr [(1, ''b.jpg'', ''vintage''), (1, ''a.jpg'', ''formal'')]
   \<and> sorted_wrt (\<lambda>a b. fst b < fst a
            \<or> (fst a = fst b \<and> (fst (snd b) < fst (snd a)
                 \<or> (fst (snd a) = fst (snd b) \<and> snd (snd b) \<le> snd (snd a)))))
        [(1 :: real, ''b.jpg'', ''vintage''), (1, ''a.jpg'', ''formal'')]"
  using recommend_sorted [OF tie_chosen] tie_chosen by blast

text \<open>
  Counterexample to C2 as stated: the search ranks \<open>a.jpg\<close> (position 0, similarity 1)
  before \<open>b.jpg\<close> (position 1, similarity 1/2); both get the combined score 1, and the
  result lists \<open>b.jpg\<close> first.
\<close>

theorem recommend_tie_counterexample:
  "index_search tie_index (fvec_renorm_L2 sum_squares [1, 0, 0, 0]) (2 * 5)
     = Inr ([(0, 1), (1, 1/2)] @ replicate 8 (- 1, neutral_dist))
   \<and> recommend_chosen sum_squares tie_index tie_items tie_trends [1, 0, 0, 0] [] 2
     = Inr [(1, ''b.jpg'', ''vintage''), (1, ''a.jpg'', ''formal'')]
   \<and> recommend sum_squares tie_index tie_items tie_trends [1, 0, 0, 0] [] 2
     = Inr ([''b.jpg'', ''a.jpg''], [''vintage'', ''formal''])"
  using tie_pool tie_chosen by (simp add: recommend_def)

text \<open>
  C4 (as amended). \<open>recommend\<close> has no check of its own on \<open>k\<close>. For \<open>k \<le> 0\<close> the call
  fails with \<open>AssertionError\<close>, raised by the argument checks of \<open>index.search\<close> (called
  with \<open>k * 5\<close>) after the query has been embedded and normalised and before any distance
  is computed or any table is read.
\<close>

theorem recommend_nonpositive_k:
  "k \<le> 0 \<Longrightarrow> index_search index (fvec_renorm_L2 nrm q) (k * 5) = Inl AssertionError
      \<and> recommend nrm index items trends q styles k = Inl AssertionError"
  by (simp add: recommend_def recommend_chosen_def index_search_def)

theorem recommend_nonpositive_k_witness:
  "(0 :: int) \<le> 0
   \<and> index_search tie_index (fvec_renorm_L2 sum_squares [1, 0, 0, 0]) (0 * 5) = Inl AssertionError
   \<and> recommend sum_squares tie_index tie_items tie_trends [1, 0, 0, 0] [] 0 = Inl AssertionError"
  using recommend_nonpositive_k [where k = 0 and index = tie_index and nrm = sum_squares
      and q = "[1, 0, 0, 0]" and items = tie_items and trends = tie_trends and styles = "[]"]
  by simp

text \<open>Counterexample to C4 as stated: at \<open>k = 0\<close> the error is not
  \<open>InvalidArgumentError\<close>.\<close>

theorem recommend_zero_k_counterexample:
  "recommend sum_squares tie_index tie_items tie_trends [1, 0, 0, 0] [] 0 \<noteq> Inl InvalidArgumentError"
  by (simp add: recommend_def recommend_chosen_def index_search_def)

text \<open>
  C5. Every entry of the returned list comes from a candidate \<open>(idx, dist)\<close> of the pool
  whose row passed the filter, and its score is
  \<open>dist + 0.25 * max 0 (latest.get(style, 0.0))\<close>, with the fixed weight 0.25. So the score
  is never below the similarity \<open>dist\<close>, and equals it when the latest velocity of the
  style is not positive.
\<close>

theorem recommend_score:
  assumes "recommend_chosen nrm index items trends q styles k = Inr R" and "c \<in> set R"
  shows "\<exists>pool idx dst row.
           index_search index (fvec_renorm_L2 nrm q) (k * 5) = Inr pool
         \<and> (idx, dst) \<in> set pool \<and> iloc items idx = Inr row
         \<and> c = (dst + 0.25 * max 0 (latest_get (latest trends) (style row)),
                local_path row, style row)
         \<and> dst \<le> fst c
         \<and> (latest_get (latest trends) (style row) \<le> 0 \<longrightarrow> fst c = dst)"
proof -
  from assms(1) obtain pool chosen where
    p: "index_search index (fvec_renorm_L2 nrm q) (k * 5) = Inr pool"
    and w: "walk items (latest trends) styles k pool [] = Inr chosen"
    and R: "R = sort_reverse chosen"
    by (rule recommend_chosen_cases)
  from assms(2) have "c \<in> set chosen"
    using mset_sort_reverse [of chosen] unfolding R by (metis set_mset_mset)
  from walk_sound [OF w this] obtain idx dst row where
    "(idx, dst) \<in> set pool" "iloc items idx = Inr row"
    "c = (score (latest trends) dst (style row), local_path row, style row)"
    by auto
  then show ?thesis using p
    by (intro exI [of _ pool] exI [of _ idx] exI [of _ dst] exI [of _ row])
       (simp add: score_def trend_boost_def)
qed

theorem recommend_score_witness:
  "recommend_chosen sum_squares tie_index tie_items tie_trends [1, 0, 0, 0] [] 2
     = Inr [(1, ''b.jpg'', ''vintage''), (1, ''a.jpg'', ''formal'')]
   \<and> (1 :: real, ''a.jpg'', ''formal'') \<in> set [(1, ''b.jpg'', ''vintage''), (1, ''a.jpg'', ''formal'')]
   \<and> latest_get (latest tie_trends) ''formal'' = 0
   \<and> (\<exists>pool idx row.
           index_search tie_index (fvec_renorm_L2 sum_squares [1, 0, 0, 0]) (2 * 5) = Inr pool
         \<and> (idx, 1) \<in> set pool \<and> iloc tie_items idx = Inr row
         \<and> local_path row = ''a.jpg'' \<and> style row = ''formal'')"
proof -
  have m: "(1 :: real, ''a.jpg'', ''formal'') \<in> set [(1, ''b.jpg'', ''vintage''), (1, ''a.jpg'', ''formal'')]"
    by simp
  have l: "latest_get (latest tie_trends) ''formal'' = 0"
    by (simp add: latest_get_def latest_def tie_trends_def)
  from recommend_score [OF tie_chosen m] obtain pool idx dst row where
    p: "index_search tie_index (fvec_renorm_L2 sum_squares [1, 0, 0, 0]) (2 * 5) = Inr pool"
    and i: "(idx, dst) \<in> set pool" "iloc tie_items idx = Inr row"
    and c: "(1, ''a.jpg'', ''formal'')
            = (dst + 0.25 * max 0 (latest_get (latest tie_trends) (style row)),
               local_path row, style row)"
    and z: "latest_get (latest tie_trends) (style row) \<le> 0
            \<longrightarrow> fst (1 :: real, ''a.jpg'', ''formal'') = dst"
    by blast
  from c have row: "local_path row = ''a.jpg''" "style row = ''formal''" by simp_all
  with z l have "dst = 1" by simp
  with p i row tie_chosen m l show ?thesis by blast
qed

text \<open>
  C6. When every position of the pool resolves to a row (a non-empty table \<open>items\<close> with at
  least as many rows as the index has vectors) and \<open>k\<close> is positive, the search returns a
  pool of \<open>k * 5\<close> candidates. Its candidates from the index come first, in order of
  non-increasing similarity, each with the inner product of the query and its vector, and
  no indexed vector outside the pool is more similar than one inside; filler slots
  follow. The walk returns the first \<open>k\<close> of the candidates that pass the filter, in pool
  order: a candidate outside a non-empty filter is skipped and does not count towards
  \<open>k\<close>, and the walk ends at \<open>k\<close> accepted candidates or at the end of the pool. With an
  empty filter every candidate is accepted; with a non-empty filter that holds no style
  of the pool the result is empty.
\<close>

theorem recommend_walk:
  assumes "0 < k" and "length q = ix_d index"
    and "items \<noteq> []" and "length (ix_xb index) \<le> length items"
  shows "\<exists>pool. index_search index (fvec_renorm_L2 nrm q) (k * 5) = Inr pool
           \<and> length pool = nat (k * 5)
           \<and> sorted_wrt (\<lambda>a b. snd b \<le> snd a) (take (length (ix_xb index)) pool)
           \<and> (\<forall>(idx, dst) \<in> set (take (length (ix_xb index)) pool).
                 0 \<le> idx \<and> idx < int (length (ix_xb index))
                 \<and> dst = fvec_inner_product (fvec_renorm_L2 nrm q) (ix_xb index ! nat idx))
           \<and> (\<forall>j < length (ix_xb index). int j \<notin> fst ` set pool \<longrightarrow>
                 (\<forall>(idx, dst) \<in> set (take (length (ix_xb index)) pool).
                    fvec_inner_product (fvec_renorm_L2 nrm q) (ix_xb index ! j) \<le> dst))
           \<and> drop (length (ix_xb index)) pool
               = replicate (nat (k * 5) - length (ix_xb index)) (- 1, neutral_dist)
           \<and> length (resolved items pool) = length pool
           \<and> walk items (latest trends) styles k pool []
               = Inr (take (nat k) (accepted (latest trends) styles (resolved items pool)))
           \<and> recommend_chosen nrm index items trends q styles k
               = Inr (sort_reverse (take (nat k)
                   (accepted (latest trends) styles (resolved items pool))))
           \<and> (styles = [] \<longrightarrow>
                accepted (latest trends) styles (resolved items pool)
                = map (\<lambda>(row, dst). (score (latest trends) dst (style row), local_path row, style row))
                    (resolved items pool))
           \<and> (styles \<noteq> [] \<and> (\<forall>(row, dst) \<in> set (resolved items pool). style row \<notin> set styles)
                \<longrightarrow> recommend nrm index items trends q styles k = Inr ([], []))"
proof -
  let ?q = "fvec_renorm_L2 nrm q"
  let ?real = "ranked index ?q (nat (k * 5))"
  let ?pool = "?real @ replicate (nat (k * 5) - length (ix_xb index)) (- 1, neutral_dist)"
  have s: "index_search index ?q (k * 5) = Inr ?pool"
    by (rule search_renorm [OF assms(1,2)])
  have r: "\<forall>(idx, dst) \<in> set ?pool. \<exists>row. iloc items idx = Inr row"
    by (rule pool_resolves [OF assms(3,4)])
  note rc = recommend_chosen_resolved [OF s r assms(1)]
  note td = pool_take_drop [of index ?q "nat (k * 5)" "(- 1, neutral_dist)"]
  have so: "sorted_wrt (\<lambda>a b. snd b \<le> snd a) (take (length (ix_xb index)) ?pool)"
    unfolding td by (rule sorted_ranked)
  have ip: "\<forall>(idx, dst) \<in> set (take (length (ix_xb index)) ?pool).
              0 \<le> idx \<and> idx < int (length (ix_xb index))
              \<and> dst = fvec_inner_product ?q (ix_xb index ! nat idx)"
    unfolding td using set_ranked [of _ _ index ?q "nat (k * 5)"] by blast
  have best: "\<forall>j < length (ix_xb index). int j \<notin> fst ` set ?pool \<longrightarrow>
                 (\<forall>(idx, dst) \<in> set (take (length (ix_xb index)) ?pool).
                    fvec_inner_product ?q (ix_xb index ! j) \<le> dst)"
  proof (intro allI impI)
    fix j assume j: "j < length (ix_xb index)" and out: "int j \<notin> fst ` set ?pool"
    from out have out': "int j \<notin> fst ` set ?real" by auto
    from assms(1) have n: "0 < nat (k * 5)" by simp
    show "\<forall>(idx, dst) \<in> set (take (length (ix_xb index)) ?pool).
            fvec_inner_product ?q (ix_xb index ! j) \<le> dst"
      unfolding td using top_ranked [OF n j out'] by blast
  qed
  have none: "recommend nrm index items trends q styles k = Inr ([], [])"
    if "styles \<noteq> []" "\<forall>(row, dst) \<in> set (resolved items ?pool). style row \<notin> set styles"
    using accepted_none [OF that] by (simp add: recommend_def rc(2) sort_reverse_def)
  have all: "styles = [] \<longrightarrow>
                accepted (latest trends) styles (resolved items ?pool)
                = map (\<lambda>(row, dst). (score (latest trends) dst (style row), local_path row, style row))
                    (resolved items ?pool)"
    by (simp add: accepted_no_filter)
  have len: "length ?pool = nat (k * 5)" by (rule length_pool)
  from s len so ip best td(2) resolved_length [OF r] rc all none
  show ?thesis by (intro exI [of _ ?pool]) blast
qed

theorem recommend_walk_witness:
  "(0 :: int) < 1 \<and> length [1, 0 :: real] = ix_d shuffled_index \<and> shuffled_items \<noteq> []
   \<and> length (ix_xb shuffled_index) \<le> length shuffled_items
   \<and> index_search shuffled_index (fvec_renorm_L2 sum_squares [1, 0]) (1 * 5) = Inr shuffled_pool
   \<and> shuffled_pool = [(1, 1), (5, 12/13), (3, 4/5), (0, 3/5), (4, 5/13)]
   \<and> sorted_wrt (\<lambda>a b. snd b \<le> snd a) (take (length (ix_xb shuffled_index)) shuffled_pool)
   \<and> length (resolved shuffled_items shuffled_pool) = length shuffled_pool
   \<and> walk shuffled_items (latest []) [''grunge''] 1 shuffled_pool []
       = Inr (take (nat 1) (accepted (latest []) [''grunge'']
           (resolved shuffled_items shuffled_pool)))
   \<and> recommend_chosen sum_squares shuffled_index shuffled_items [] [1, 0] [''grunge''] 1
       = Inr [(4/5, ''s3.jpg'', ''grunge'')]"
proof -
  have h: "(0 :: int) < 1" "length [1, 0 :: real] = ix_d shuffled_index" "shuffled_items \<noteq> []"
    "length (ix_xb shuffled_index) \<le> length shuffled_items"
    by (simp_all add: shuffled_index_def shuffled_items_def)
  from recommend_walk [where nrm = sum_squares and trends = "[]" and styles = "[''grunge'']", OF h]
  obtain pool where
    p: "index_search shuffled_index (fvec_renorm_L2 sum_squares [1, 0]) (1 * 5) = Inr pool"
    and so: "sorted_wrt (\<lambda>a b. snd b \<le> snd a) (take (length (ix_xb shuffled_index)) pool)"
    and l: "length (resolved shuffled_items pool) = length pool"
    and w: "walk shuffled_items (latest []) [''grunge''] 1 pool []
            = Inr (take (nat 1) (accepted (latest []) [''grunge''] (resolved shuffled_items pool)))"
    by blast
  from p shuffled_search have "pool = shuffled_pool" by simp
  with h so l w shuffled_search shuffled_grunge show ?thesis
    by (simp add: shuffled_pool_def)
qed

text \<open>
  C7 (as amended). When the index holds at least \<open>k * 5\<close> vectors, each with its row in
  \<open>items\<close>, the pool is the \<open>k * 5\<close> most similar vectors and has no filler. \<open>recommend\<close>
  returns without error a list in descending order, and when fewer than \<open>k\<close> candidates of
  the pool pass the filter the list holds exactly those candidates. Items outside the
  pool are never returned.
\<close>

theorem recommend_few_matches:
  assumes "0 < k" and "length q = ix_d index"
    and "length (ix_xb index) \<le> length items" and "k * 5 \<le> int (length (ix_xb index))"
  shows "\<exists>pool R. index_search index (fvec_renorm_L2 nrm q) (k * 5) = Inr pool
           \<and> - 1 \<notin> fst ` set pool
           \<and> recommend_chosen nrm index items trends q styles k = Inr R
           \<and> sorted_wrt (\<lambda>a b. b \<le> a) R
           \<and> (length (accepted (latest trends) styles (resolved items pool)) < nat k
                \<longrightarrow> mset R = mset (accepted (latest trends) styles (resolved items pool)))"
proof -
  let ?pool = "ranked index (fvec_renorm_L2 nrm q) (nat (k * 5))"
  from assms(4) have "nat (k * 5) - length (ix_xb index) = 0" by simp
  with search_renorm [OF assms(1,2)]
  have s: "index_search index (fvec_renorm_L2 nrm q) (k * 5) = Inr ?pool" by simp
  have nn: "0 \<le> idx \<and> idx < int (length (ix_xb index))" if "(idx, dst) \<in> set ?pool" for idx dst
    using set_ranked [OF that] by simp
  have r: "\<forall>(idx, dst) \<in> set ?pool. \<exists>row. iloc items idx = Inr row"
  proof (clarify)
    fix idx dst assume "(idx, dst) \<in> set ?pool"
    from nn [OF this] assms(3) have "0 \<le> idx" "idx < int (length items)" by simp_all
    then show "\<exists>row. iloc items idx = Inr row" by (simp add: iloc_nonneg)
  qed
  have neg: "- 1 \<notin> fst ` set ?pool" using nn by fastforce
  note rc = recommend_chosen_resolved [OF s r assms(1)]
  let ?R = "sort_reverse (take (nat k) (accepted (latest trends) styles (resolved items ?pool)))"
  have "mset ?R = mset (accepted (latest trends) styles (resolved items ?pool))"
    if "length (accepted (latest trends) styles (resolved items ?pool)) < nat k"
    using that by (simp add: mset_sort_reverse)
  then show ?thesis using s neg rc(2) sort_reverse_sorted
    by (intro exI [of _ ?pool] exI [of _ ?R]) simp
qed

theorem recommend_few_matches_witness:
  "(0 :: int) < 2 \<and> length [1, 0 :: real] = ix_d catalog_index
   \<and> length (ix_xb catalog_index) \<le> length catalog_items
   \<and> (2 :: int) * 5 \<le> int (length (ix_xb catalog_index))
   \<and> index_search catalog_index (fvec_renorm_L2 sum_squares [1, 0]) (2 * 5) = Inr catalog_pool
   \<and> length (accepted (latest []) [''grunge'', ''vintage'']
         (resolved catalog_items catalog_pool)) < nat 2
   \<and> recommend_chosen sum_squares catalog_index catalog_items [] [1, 0] [''grunge'', ''vintage''] 2
       = Inr [(15/17, ''p03.jpg'', ''grunge'')]
   \<and> mset [(15/17 :: real, ''p03.jpg'', ''grunge'')]
       = mset (accepted (latest []) [''grunge'', ''vintage'']
           (resolved catalog_items catalog_pool))"
proof -
  have h: "(0 :: int) < 2" "length [1, 0 :: real] = ix_d catalog_index"
    "length (ix_xb catalog_index) \<le> length catalog_items"
    "(2 :: int) * 5 \<le> int (length (ix_xb catalog_index))"
    by (simp_all add: catalog_index_def catalog_items_def)
  from recommend_few_matches [where nrm = sum_squares and trends = "[]"
      and styles = "[''grunge'', ''vintage'']", OF h]
  show ?thesis using h catalog_search catalog_grunge catalog_accepted_grunge by auto
qed

text \<open>
  Counterexample to C7 as stated: the catalog holds one \<open>vintage\<close> item, \<open>k = 2\<close> exceeds
  that number, and the result is empty, because the item is the least similar of eleven
  and the pool holds ten.
\<close>

theorem recommend_few_matches_counterexample:
  "recommend sum_squares catalog_index catalog_items [] [1, 0] [''vintage''] 2 = Inr ([], [])
   \<and> map local_path (filter (\<lambda>r. style r \<in> set [''vintage'']) catalog_items) = [''p10.jpg'']
   \<and> length (ix_xb catalog_index) = length catalog_items"
  using catalog_vintage by (simp add: catalog_items_def catalog_index_def example_item_def)

text \<open>
  C10 (as amended). Candidates are resolved by position in the rows of \<open>items\<close>. When the
  index holds fewer than \<open>k * 5\<close> vectors, the search result ends with slots
  \<open>(-1, neutral_dist)\<close>; \<open>items.iloc[-1]\<close> is the last row and no error is raised. A filler
  slot is scored, as an entry for the last row with the filler distance, when the last
  row passes the filter and fewer than \<open>k\<close> candidates from the index were accepted.
  Otherwise no filler is scored: the result is the sorted list of the first \<open>k\<close> accepted
  candidates from the index.
\<close>

theorem recommend_padding:
  assumes "0 < k" and "length q = ix_d index"
    and "items \<noteq> []" and "length (ix_xb index) \<le> length items"
    and "int (length (ix_xb index)) < k * 5"
  shows "\<exists>pool R. index_search index (fvec_renorm_L2 nrm q) (k * 5) = Inr pool
           \<and> length pool = nat (k * 5)
           \<and> drop (length (ix_xb index)) pool
               = replicate (nat (k * 5) - length (ix_xb index)) (- 1, neutral_dist)
           \<and> 0 < nat (k * 5) - length (ix_xb index)
           \<and> iloc items (- 1) = Inr (last items)
           \<and> recommend_chosen nrm index items trends q styles k = Inr R
           \<and> (passes styles (last items)
                \<and> length (accepted (latest trends) styles
                     (resolved items (take (length (ix_xb index)) pool))) < nat k
              \<longrightarrow> (score (latest trends) neutral_dist (style (last items)),
                     local_path (last items), style (last items)) \<in> set R)
           \<and> (\<not> passes styles (last items)
                \<or> nat k \<le> length (accepted (latest trends) styles
                     (resolved items (take (length (ix_xb index)) pool)))
              \<longrightarrow> R = sort_reverse (take (nat k) (accepted (latest trends) styles
                     (resolved items (take (length (ix_xb index)) pool)))))"
proof -
  let ?N = "length (ix_xb index)"
  let ?q = "fvec_renorm_L2 nrm q"
  let ?real = "ranked index ?q (nat (k * 5))"
  let ?m = "nat (k * 5) - ?N"
  let ?pool = "?real @ replicate ?m (- 1, neutral_dist)"
  let ?ph = "(score (latest trends) neutral_dist (style (last items)),
              local_path (last items), style (last items))"
  from assms(5) have m: "0 < ?m" by simp
  have s: "index_search index ?q (k * 5) = Inr ?pool"
    by (rule search_renorm [OF assms(1,2)])
  have r: "\<forall>(idx, dst) \<in> set ?pool. \<exists>row. iloc items idx = Inr row"
    by (rule pool_resolves [OF assms(3,4)])
  note rc = recommend_chosen_resolved [OF s r assms(1)]
  note td = pool_take_drop [of index ?q "nat (k * 5)" "(- 1, neutral_dist)"]
  let ?A = "accepted (latest trends) styles (resolved items ?real)"
  let ?F = "accepted (latest trends) styles (replicate ?m (last items, neutral_dist))"
  let ?R = "sort_reverse (take (nat k) (accepted (latest trends) styles (resolved items ?pool)))"
  have split: "accepted (latest trends) styles (resolved items ?pool) = ?A @ ?F"
    by (simp add: resolved_append accepted_append resolved_filler [OF assms(3)])
  have scored: "?ph \<in> set ?R" if p: "passes styles (last items)" and l: "length ?A < nat k"
  proof -
    have "?F = replicate ?m ?ph" by (rule accepted_filler [OF p])
    with split have "accepted (latest trends) styles (resolved items ?pool)
                     = ?A @ replicate ?m ?ph" by (simp only:)
    moreover have "?ph \<in> set (take (nat k) (?A @ replicate ?m ?ph))"
      by (rule take_append_replicate_mem [OF l m])
    ultimately have "?ph \<in> set (take (nat k)
        (accepted (latest trends) styles (resolved items ?pool)))" by (simp only:)
    then show ?thesis using mset_sort_reverse by (metis set_mset_mset)
  qed
  have plain: "?R = sort_reverse (take (nat k) ?A)"
    if "\<not> passes styles (last items) \<or> nat k \<le> length ?A"
    using that
  proof
    assume "\<not> passes styles (last items)"
    then show ?thesis by (simp add: split accepted_filler_none)
  next
    assume "nat k \<le> length ?A"
    then show ?thesis by (simp add: split)
  qed
  have len: "length ?pool = nat (k * 5)" by (rule length_pool)
  let ?T = "accepted (latest trends) styles (resolved items (take ?N ?pool))"
  have T: "?T = ?A" by (simp only: td(1))
  have scored': "passes styles (last items) \<and> length ?T < nat k \<longrightarrow> ?ph \<in> set ?R"
    unfolding T using scored by blast
  have plain': "\<not> passes styles (last items) \<or> nat k \<le> length ?T
                \<longrightarrow> ?R = sort_reverse (take (nat k) ?T)"
    unfolding T using plain by blast
  from s len td(2) m iloc_last [OF assms(3)] rc(2) scored' plain'
  show ?thesis by (intro exI [of _ ?pool] exI [of _ ?R]) blast
qed

theorem recommend_padding_witness:
  "(0 :: int) < 3 \<and> length [1, 0, 0, 0 :: real] = ix_d tie_index \<and> tie_items \<noteq> []
   \<and> length (ix_xb tie_index) \<le> length tie_items
   \<and> int (length (ix_xb tie_index)) < 3 * 5
   \<and> passes [] (last tie_items)
   \<and> length (accepted (latest tie_trends) []
        (resolved tie_items (take (length (ix_xb tie_index))
           ([(0, 1), (1, 1/2)] @ replicate 13 (- 1, neutral_dist))))) < nat 3
   \<and> recommend_chosen sum_squares tie_index tie_items tie_trends [1, 0, 0, 0] [] 3
       = Inr [(1, ''b.jpg'', ''vintage''), (1, ''a.jpg'', ''formal''),
              (neutral_dist + 1/2, ''b.jpg'', ''vintage'')]
   \<and> (score (latest tie_trends) neutral_dist (style (last tie_items)),
        local_path (last tie_items), style (last tie_items))
       \<in> set [(1, ''b.jpg'', ''vintage''), (1, ''a.jpg'', ''formal''),
              (neutral_dist + 1/2, ''b.jpg'', ''vintage'')]"
proof -
  let ?pool = "[(0, 1), (1, 1/2)] @ replicate 13 (- 1, neutral_dist)"
  let ?R = "[(1, ''b.jpg'', ''vintage''), (1, ''a.jpg'', ''formal''),
             (neutral_dist + 1/2, ''b.jpg'', ''vintage'')]"
  let ?ph = "(score (latest tie_trends) neutral_dist (style (last tie_items)),
              local_path (last tie_items), style (last tie_items))"
  have h: "(0 :: int) < 3" "length [1, 0, 0, 0 :: real] = ix_d tie_index" "tie_items \<noteq> []"
    "length (ix_xb tie_index) \<le> length tie_items"
    "int (length (ix_xb tie_index)) < 3 * 5"
    by (simp_all add: tie_index_def tie_items_def)
  have e1: "passes [] (last tie_items)" by (simp add: passes_def)
  have e2: "length (accepted (latest tie_trends) []
        (resolved tie_items (take (length (ix_xb tie_index)) ?pool))) < nat 3"
    by (simp add: accepted_def resolved_def tie_index_def tie_items_def iloc_def)
  from recommend_padding [where nrm = sum_squares and trends = tie_trends and styles = "[]", OF h]
  obtain pool R where
    p: "index_search tie_index (fvec_renorm_L2 sum_squares [1, 0, 0, 0]) (3 * 5) = Inr pool"
    and R: "recommend_chosen sum_squares tie_index tie_items tie_trends [1, 0, 0, 0] [] 3 = Inr R"
    and ph: "passes [] (last tie_items)
                \<and> length (accepted (latest tie_trends) []
                     (resolved tie_items (take (length (ix_xb tie_index)) pool))) < nat 3
              \<longrightarrow> ?ph \<in> set R"
    by blast
  from p tie_pool3 have "pool = ?pool" by simp
  moreover from R tie_chosen3 have "R = ?R" by simp
  ultimately have "?ph \<in> set ?R" using ph e1 e2 by blast
  then show ?thesis using h e1 e2 tie_chosen3 by blast
qed

text \<open>
  Counterexample to C10 as stated: the index holds two vectors, so the pools of 10 and of
  15 slots are padded. With \<open>k = 2\<close> and no filter the two indexed candidates fill the
  result and no filler is scored; with \<open>k = 3\<close> and the filter \<open>formal\<close> the fillers resolve to
  the last row, whose style is \<open>vintage\<close>, and are skipped.
\<close>

theorem recommend_padding_counterexample:
  "int (length (ix_xb tie_index)) < 2 * 5
   \<and> index_search tie_index (fvec_renorm_L2 sum_squares [1, 0, 0, 0]) (2 * 5)
       = Inr ([(0, 1), (1, 1/2)] @ replicate 8 (- 1, neutral_dist))
   \<and> recommend_chosen sum_squares tie_index tie_items tie_trends [1, 0, 0, 0] [] 2
       = Inr [(1, ''b.jpg'', ''vintage''), (1, ''a.jpg'', ''formal'')]
   \<and> recommend_chosen sum_squares tie_index tie_items tie_trends [1, 0, 0, 0] [''formal''] 3
       = Inr [(1, ''a.jpg'', ''formal'')]"
  using tie_pool tie_chosen tie_formal3 by (simp add: tie_index_def)

section \<open>Properties of the index build\<close>

lemma norm_scaled: "sum_squares (map (\<lambda>a. a * c) x) = c * c * sum_squares x"
  by (induction x) (simp_all add: sum_squares_def algebra_simps)

lemma if_then_I: "c \<Longrightarrow> P \<Longrightarrow> if c then P else Q"
  by simp

lemma if_else_I: "\<not> c \<Longrightarrow> Q \<Longrightarrow> if c then P else Q"
  by simp

lemma if_then_D: "if c then P else Q \<Longrightarrow> c \<Longrightarrow> P"
  by simp

lemma if_else_D: "if c then P else Q \<Longrightarrow> \<not> c \<Longrightarrow> Q"
  by simp

lemma renorm_scaled:
  "0 < nrm x \<Longrightarrow> fvec_renorm_L2 nrm x = map (\<lambda>a. a * (1 / sqrt (nrm x))) x"
  by (simp add: fvec_renorm_L2_def)

lemma renorm_unit:
  assumes "0 < nrm x" and "nrm x = sum_squares x"
  shows "sum_squares (fvec_renorm_L2 nrm x) = 1"
proof -
  let ?nr = "sum_squares x"
  from assms have pos: "0 < ?nr" by simp
  have "fvec_renorm_L2 nrm x = map (\<lambda>a. a * (1 / sqrt ?nr)) x"
    using renorm_scaled [of nrm x] assms by (simp only:)
  then have "sum_squares (fvec_renorm_L2 nrm x) = (1 / sqrt ?nr) * (1 / sqrt ?nr) * ?nr"
    by (simp only: norm_scaled)
  also have "\<dots> = ?nr / (sqrt ?nr * sqrt ?nr)" by simp
  also have "\<dots> = 1" using pos by simp
  finally show ?thesis .
qed

lemma renorm_zero: "\<not> 0 < nrm x \<Longrightarrow> fvec_renorm_L2 nrm x = x"
  by (simp add: fvec_renorm_L2_def)

lemma build_faiss_Some:
  assumes "tbl \<noteq> []" and "list_all (\<lambda>r. length (emb r) = n) tbl"
  shows "build_faiss nrm tbl = Inr (Some \<lparr>ix_d = n, ix_xb = normalize_L2 nrm (map emb tbl)\<rparr>)"
proof -
  from assms obtain r rs where tbl: "tbl = r # rs" by (cases tbl) simp_all
  with assms(2) have hd: "length (hd (map emb tbl)) = n" by simp
  have "\<not> list_ex (\<lambda>r. length r \<noteq> n) (map emb tbl)"
    using assms(2) by (simp add: list_ex_iff list_all_iff)
  with hd assms(1) show ?thesis by (simp add: build_faiss_def Let_def)
qed

lemma build_faiss_error: "build_faiss nrm tbl = Inl e \<Longrightarrow> e = ValueError"
  by (simp add: build_faiss_def Let_def split: if_splits)

lemma build_faiss_written:
  assumes "build_faiss nrm tbl = Inr (Some ix)"
  shows "tbl \<noteq> []" and "ix_xb ix = normalize_L2 nrm (map emb tbl)"
  using assms by (auto simp: build_faiss_def Let_def split: if_splits)

text \<open>
  C3 (as amended). \<open>build_faiss\<close> never writes an index that holds zero items: with an empty
  table \<open>items\<close> it returns before it writes an index, and every index it writes holds one
  vector per row of a non-empty table.
\<close>

theorem build_faiss_never_empty:
  "build_faiss nrm [] = Inr None
   \<and> (build_faiss nrm tbl = Inr (Some ix) \<longrightarrow>
        tbl \<noteq> [] \<and> ix_xb ix \<noteq> [] \<and> length (ix_xb ix) = length tbl)"
proof -
  have "build_faiss nrm [] = Inr None" by (simp add: build_faiss_def)
  moreover have "tbl \<noteq> [] \<and> ix_xb ix \<noteq> [] \<and> length (ix_xb ix) = length tbl"
    if "build_faiss nrm tbl = Inr (Some ix)"
    using build_faiss_written [OF that] by (simp add: normalize_L2_def)
  ultimately show ?thesis by blast
qed

theorem build_faiss_never_empty_witness:
  "build_faiss sum_squares [] = Inr None
   \<and> build_faiss sum_squares tie_items = Inr (Some tie_index)
   \<and> tie_items \<noteq> [] \<and> ix_xb tie_index \<noteq> []
   \<and> length (ix_xb tie_index) = length tie_items"
  using build_faiss_never_empty [where nrm = sum_squares and tbl = tie_items and ix = tie_index]
    tie_build
  by simp

text \<open>
  Counterexample to C3 as stated: with an index that holds no vector and an empty table
  \<open>items\<close>, \<open>recommend\<close> with \<open>k = 1\<close> raises \<open>IndexError\<close>: every slot of the search result is
  the filler \<open>-1\<close>, and \<open>items.iloc[-1]\<close> has no row to return.
\<close>

theorem recommend_empty_index_counterexample:
  "recommend sum_squares \<lparr>ix_d = 2, ix_xb = []\<rparr> [] [] [1, 0] [] 1 = Inl IndexError"
  by (simp add: recommend_def recommend_chosen_def index_search_def ranked_def fvec_renorm_L2_def
      sum_squares_def iloc_def eval_nat_numeral)

text \<open>
  C8 (as amended). \<open>build_faiss\<close> never raises \<open>InvalidEmbeddingError\<close> and rejects no row.
  For a non-empty table whose embeddings have one length it writes an index with one
  vector per row, in row order. An embedding whose computed squared norm is positive is
  stored multiplied by the inverse square root of that computed norm, which is unit
  length where the computed norm is the exact one. An embedding whose computed squared
  norm is not positive (the zero vector, or a vector so small that its squares underflow)
  is stored unchanged.
\<close>

theorem build_faiss_normalizes:
  "build_faiss nrm tbl \<noteq> Inl InvalidEmbeddingError
   \<and> (tbl \<noteq> [] \<and> list_all (\<lambda>r. length (emb r) = n) tbl \<longrightarrow>
        (\<exists>ix. build_faiss nrm tbl = Inr (Some ix) \<and> ix_d ix = n
           \<and> length (ix_xb ix) = length tbl
           \<and> (\<forall>i < length tbl.
                 if 0 < nrm (emb (tbl ! i))
                 then ix_xb ix ! i
                        = map (\<lambda>a. a * (1 / sqrt (nrm (emb (tbl ! i))))) (emb (tbl ! i))
                      \<and> (nrm (emb (tbl ! i)) = sum_squares (emb (tbl ! i))
                           \<longrightarrow> sum_squares (ix_xb ix ! i) = 1)
                 else ix_xb ix ! i = emb (tbl ! i))))"
proof -
  have "build_faiss nrm tbl \<noteq> Inl InvalidEmbeddingError"
    using build_faiss_error [of nrm tbl InvalidEmbeddingError] by auto
  moreover have "\<exists>ix. build_faiss nrm tbl = Inr (Some ix) \<and> ix_d ix = n
           \<and> length (ix_xb ix) = length tbl
           \<and> (\<forall>i < length tbl.
                 if 0 < nrm (emb (tbl ! i))
                 then ix_xb ix ! i
                        = map (\<lambda>a. a * (1 / sqrt (nrm (emb (tbl ! i))))) (emb (tbl ! i))
                      \<and> (nrm (emb (tbl ! i)) = sum_squares (emb (tbl ! i))
                           \<longrightarrow> sum_squares (ix_xb ix ! i) = 1)
                 else ix_xb ix ! i = emb (tbl ! i))"
    if "tbl \<noteq> []" "list_all (\<lambda>r. length (emb r) = n) tbl"
  proof -
    let ?ix = "\<lparr>ix_d = n, ix_xb = normalize_L2 nrm (map emb tbl)\<rparr>"
    have row: "if 0 < nrm (emb (tbl ! i))
                 then ix_xb ?ix ! i
                        = map (\<lambda>a. a * (1 / sqrt (nrm (emb (tbl ! i))))) (emb (tbl ! i))
                      \<and> (nrm (emb (tbl ! i)) = sum_squares (emb (tbl ! i))
                           \<longrightarrow> sum_squares (ix_xb ?ix ! i) = 1)
                 else ix_xb ?ix ! i = emb (tbl ! i)" if i: "i < length tbl" for i
    proof -
      let ?x = "emb (tbl ! i)"
      from i have st: "ix_xb ?ix ! i = fvec_renorm_L2 nrm ?x" by (simp add: normalize_L2_def)
      show ?thesis
      proof (cases "0 < nrm ?x")
        case True
        from True have "fvec_renorm_L2 nrm ?x = map (\<lambda>a. a * (1 / sqrt (nrm ?x))) ?x"
          by (rule renorm_scaled)
        then have sc: "ix_xb ?ix ! i = map (\<lambda>a. a * (1 / sqrt (nrm ?x))) ?x"
          by (simp only: st)
        have "sum_squares (fvec_renorm_L2 nrm ?x) = 1" if "nrm ?x = sum_squares ?x"
          using True that by (rule renorm_unit)
        then have un: "nrm ?x = sum_squares ?x \<longrightarrow> sum_squares (ix_xb ?ix ! i) = 1"
          by (simp only: st) blast
        from sc un have "ix_xb ?ix ! i = map (\<lambda>a. a * (1 / sqrt (nrm ?x))) ?x
            \<and> (nrm ?x = sum_squares ?x \<longrightarrow> sum_squares (ix_xb ?ix ! i) = 1)" by (rule conjI)
        with True show ?thesis by (rule if_then_I)
      next
        case False
        from False have "fvec_renorm_L2 nrm ?x = ?x" by (rule renorm_zero)
        then have "ix_xb ?ix ! i = ?x" by (simp only: st)
        with False show ?thesis by (rule if_else_I)
      qed
    qed
    have b: "build_faiss nrm tbl = Inr (Some ?ix)"
      using that by (rule build_faiss_Some)
    have d: "ix_d ?ix = n" by simp
    have l: "length (ix_xb ?ix) = length tbl" by (simp add: normalize_L2_def)
    from b d l row show ?thesis by (intro exI [of _ ?ix]) blast
  qed
  ultimately show ?thesis by blast
qed

theorem build_faiss_normalizes_witness:
  "zero_items \<noteq> [] \<and> list_all (\<lambda>r. length (emb r) = 2) zero_items
   \<and> 0 < underflow_norm [3, 4] \<and> underflow_norm [3, 4] = sum_squares [3, 4]
   \<and> underflow_norm [0, 0] = 0 \<and> underflow_norm [1 / 2 ^ 100, 0] = 0
   \<and> build_faiss underflow_norm zero_items \<noteq> Inl InvalidEmbeddingError
   \<and> (\<exists>ix. build_faiss underflow_norm zero_items = Inr (Some ix) \<and> ix_d ix = 2
         \<and> length (ix_xb ix) = 3
         \<and> ix_xb ix ! 0 = map (\<lambda>a. a * (1 / sqrt (underflow_norm [3, 4]))) [3, 4]
         \<and> sum_squares (ix_xb ix ! 0) = 1
         \<and> ix_xb ix ! 1 = [0, 0] \<and> ix_xb ix ! 2 = [1 / 2 ^ 100, 0])"
proof -
  have h: "zero_items \<noteq> [] \<and> list_all (\<lambda>r. length (emb r) = 2) zero_items"
    by (simp add: zero_items_def example_item_def)
  have n: "0 < underflow_norm [3, 4]" "underflow_norm [3, 4] = sum_squares [3, 4]"
    "underflow_norm [0, 0] = 0" "underflow_norm [1 / 2 ^ 100, 0] = 0"
    by (simp_all add: underflow_norm_def sum_squares_def)
  have e: "emb (zero_items ! 0) = [3, 4]" "emb (zero_items ! 1) = [0, 0]"
    "emb (zero_items ! 2) = [1 / 2 ^ 100, 0]" "length zero_items = 3"
    by (simp_all add: zero_items_def example_item_def)
  from build_faiss_normalizes [of underflow_norm zero_items 2] h obtain ix where
    ix: "build_faiss underflow_norm zero_items = Inr (Some ix)" "ix_d ix = 2"
      "length (ix_xb ix) = length zero_items"
    and all: "\<And>i. i < length zero_items \<Longrightarrow>
                 if 0 < underflow_norm (emb (zero_items ! i))
                 then ix_xb ix ! i
                        = map (\<lambda>a. a * (1 / sqrt (underflow_norm (emb (zero_items ! i)))))
                            (emb (zero_items ! i))
                      \<and> (underflow_norm (emb (zero_items ! i)) = sum_squares (emb (zero_items ! i))
                           \<longrightarrow> sum_squares (ix_xb ix ! i) = 1)
                 else ix_xb ix ! i = emb (zero_items ! i)"
    by blast
  have l: "0 < length zero_items" "1 < length zero_items" "2 < length zero_items"
    by (simp_all add: e(4))
  have z: "\<not> 0 < underflow_norm [0, 0]" "\<not> 0 < underflow_norm [1 / 2 ^ 100, 0]"
    by (simp_all only: n(3,4) less_irrefl not_False_eq_True)
  have "ix_xb ix ! 0 = map (\<lambda>a. a * (1 / sqrt (underflow_norm [3, 4]))) [3, 4]
        \<and> (underflow_norm [3, 4] = sum_squares [3, 4] \<longrightarrow> sum_squares (ix_xb ix ! 0) = 1)"
    by (rule if_then_D [OF all [OF l(1), unfolded e(1)] n(1)])
  with n(2) have r0: "ix_xb ix ! 0 = map (\<lambda>a. a * (1 / sqrt (underflow_norm [3, 4]))) [3, 4]"
      "sum_squares (ix_xb ix ! 0) = 1"
    by blast+
  have r1: "ix_xb ix ! 1 = [0, 0]"
    by (rule if_else_D [OF all [OF l(2), unfolded e(2)] z(1)])
  have r2: "ix_xb ix ! 2 = [1 / 2 ^ 100, 0]"
    by (rule if_else_D [OF all [OF l(3), unfolded e(3)] z(2)])
  from build_faiss_normalizes [of underflow_norm zero_items 2]
  have ne: "build_faiss underflow_norm zero_items \<noteq> Inl InvalidEmbeddingError" by blast
  from ix e(4) have "length (ix_xb ix) = 3" by simp
  with h n ne ix(1,2) r0 r1 r2 show ?thesis by blast
qed

text \<open>
  Counterexample to C8 as stated: a table with one zero embedding builds an index that
  holds the zero vector, and no error is raised.
\<close>

theorem build_faiss_zero_counterexample:
  "build_faiss sum_squares [example_item ''z.jpg'' ''formal'' [0, 0]]
     = Inr (Some \<lparr>ix_d = 2, ix_xb = [[0, 0]]\<rparr>)
   \<and> sum_squares [0, 0] = 0"
  by (simp add: build_faiss_def example_item_def normalize_L2_def fvec_renorm_L2_def
      sum_squares_def)

lemma index_images_rows:
  "index_images embed_img zero_shot_style now meta_by_path ps tbl
   = Inr (tbl @ concat (map (\<lambda>p. [fresh_row embed_img zero_shot_style now p,
                                    csv_row embed_img zero_shot_style meta_by_path p]) ps))"
proof (induction ps arbitrary: tbl)
  case Nil
  then show ?case by simp
next
  case (Cons p ps)
  show ?case
    by (simp add: Cons.IH upsert_item_def dict_get_def fresh_row_def csv_row_def Let_def
        split: prod.splits)
qed

text \<open>
  C9. One run of the entry point appends two rows per image path to table \<open>items\<close>, the
  first with the metadata built in the loop and the second with the metadata looked up in
  \<open>meta_by_path\<close>, both with the embedding of the image; the index built afterwards holds
  the normalised embedding of each image twice, after the vectors of the rows that were
  in the table before. (The embeddings are assumed to have one length, as the encoder's
  have; otherwise \<open>np.vstack\<close> fails.)
\<close>

theorem main_two_rows:
  assumes "list_all (\<lambda>r. length (emb r) = n) tbl"
    and "list_all (\<lambda>p. length (embed_img p) = n) paths" and "paths \<noteq> []"
  shows "\<exists>tbl' ix. main nrm embed_img zero_shot_style now meta_by_path paths tbl = Inr (tbl', Some ix)
           \<and> tbl' = tbl @ concat (map (\<lambda>p. [fresh_row embed_img zero_shot_style now p,
                                            csv_row embed_img zero_shot_style meta_by_path p]) paths)
           \<and> length tbl' = length tbl + 2 * length paths
           \<and> ix_xb ix = normalize_L2 nrm (map emb tbl)
               @ concat (map (\<lambda>p. [fvec_renorm_L2 nrm (embed_img p), fvec_renorm_L2 nrm (embed_img p)]) paths)"
proof -
  let ?new = "concat (map (\<lambda>p. [fresh_row embed_img zero_shot_style now p,
                                 csv_row embed_img zero_shot_style meta_by_path p]) paths)"
  have emb_new: "map emb ?new = concat (map (\<lambda>p. [embed_img p, embed_img p]) paths)"
    by (induction paths) (simp_all add: fresh_row_def csv_row_def Let_def)
  have len_new: "length ?new = 2 * length paths"
    by (induction paths) simp_all
  have "list_all (\<lambda>r. length r = n) (map emb ?new)"
    unfolding emb_new using assms(2) by (induction paths) simp_all
  then have all: "list_all (\<lambda>r. length (emb r) = n) (tbl @ ?new)"
    using assms(1) by (auto simp: list_all_iff)
  from assms(3) len_new have ne: "tbl @ ?new \<noteq> []" by (cases paths) auto
  have norm_new: "normalize_L2 nrm (map emb ?new)
        = concat (map (\<lambda>p. [fvec_renorm_L2 nrm (embed_img p), fvec_renorm_L2 nrm (embed_img p)]) paths)"
    unfolding emb_new by (induction paths) (simp_all add: normalize_L2_def)
  have "main nrm embed_img zero_shot_style now meta_by_path paths tbl
        = Inr (tbl @ ?new, Some \<lparr>ix_d = n, ix_xb = normalize_L2 nrm (map emb (tbl @ ?new))\<rparr>)"
    by (simp add: main_def index_images_rows build_faiss_Some [OF ne all])
  moreover have "normalize_L2 nrm (map emb (tbl @ ?new))
        = normalize_L2 nrm (map emb tbl) @ normalize_L2 nrm (map emb ?new)"
    by (simp add: normalize_L2_def)
  ultimately show ?thesis using len_new norm_new by simp
qed

theorem main_two_rows_witness:
  "list_all (\<lambda>r. length (emb r) = 2) []
   \<and> list_all (\<lambda>p. length ((\<lambda>p. [3, 4 :: real]) p) = 2) [''data/images/a.jpg'']
   \<and> [''data/images/a.jpg''] \<noteq> []
   \<and> (\<exists>ix. main sum_squares (\<lambda>p. [3, 4]) (\<lambda>v. (''formal'', 1/2)) (\<lambda>p. ''2024-01-02T10:00:00'') example_meta
            [''data/images/a.jpg''] []
        = Inr ([\<lparr>source = ''reddit'', url = [], local_path = ''data/images/a.jpg'',
                  ts = ''2024-01-02T10:00:00'', style = ''formal'', prob = 1/2, emb = [3, 4]\<rparr>,
                \<lparr>source = ''malefashion'', url = ''https://i.redd.it/a.jpg'',
                  local_path = ''data/images/a.jpg'', ts = ''2024-01-01T08:30:00'',
                  style = ''formal'', prob = 1/2, emb = [3, 4]\<rparr>], Some ix)
        \<and> ix_xb ix = [fvec_renorm_L2 sum_squares [3, 4], fvec_renorm_L2 sum_squares [3, 4]])"
proof -
  have h: "list_all (\<lambda>r. length (emb r) = 2) []"
    "list_all (\<lambda>p. length ((\<lambda>p. [3, 4 :: real]) p) = 2) [''data/images/a.jpg'']"
    "[''data/images/a.jpg''] \<noteq> []"
    by simp_all
  from main_two_rows [where nrm = sum_squares and zero_shot_style = "\<lambda>v. (''formal'', 1/2)"
      and now = "\<lambda>p. ''2024-01-02T10:00:00''" and meta_by_path = example_meta, OF h]
  show ?thesis using h
    by (simp add: fresh_row_def csv_row_def example_meta_def dict_get_def normalize_L2_def)
qed

section \<open>Properties of the trend computation\<close>

lemma ewm_loop_length: "length (ewm_loop f w ow ys) = length ys"
  by (induction ys arbitrary: w ow) (simp_all add: Let_def)

lemma ewm_mean_length: "length (ewm_mean a xs) = length xs"
  by (cases xs) (simp_all add: ewm_loop_length)

lemma ewm_step:
  fixes f S W cur :: real
  assumes "0 < W" and that: "0 \<le> f"
  shows "(if S / W \<noteq> cur then (W * f * (S / W) + 1 * cur) / (W * f + 1) else S / W)
         = (f * S + cur) / (f * W + 1)"
proof (cases "S / W = cur")
  case True
  with assms(1) have S: "S = cur * W" by (simp add: field_simps)
  from assms(1) that have "0 < f * W + 1" by (simp add: add_nonneg_pos)
  then have "(f * S + cur) / (f * W + 1) = cur" unfolding S by (simp add: field_simps)
  with True show ?thesis by simp
next
  case False
  from assms(1) have "W * f * (S / W) = f * S" by simp
  with False show ?thesis by (simp add: mult.commute)
qed

lemma ewm_loop_closed:
  fixes f :: real
  assumes "0 \<le> f"
  shows "0 < W \<Longrightarrow> i < length ys \<Longrightarrow>
         ewm_loop f (S / W) W ys ! i
         = (f ^ Suc i * S + (\<Sum>j\<le>i. f ^ (i - j) * ys ! j)) / (f ^ Suc i * W + (\<Sum>j\<le>i. f ^ (i - j)))"
proof (induction ys arbitrary: S W i)
  case Nil
  then show ?case by simp
next
  case (Cons cur rest)
  let ?S = "f * S + cur" and ?W = "f * W + 1"
  from Cons.prems(1) assms have W': "0 < ?W" by (simp add: add_nonneg_pos)
  have step: "ewm_loop f (S / W) W (cur # rest) = ?S / ?W # ewm_loop f (?S / ?W) ?W rest"
    using ewm_step [OF Cons.prems(1) assms, of S cur] by (simp add: Let_def mult.commute)
  show ?case
  proof (cases i)
    case 0
    have "ewm_loop f (S / W) W (cur # rest) ! i = ?S / ?W"
      by (simp only: step 0 nth_Cons_0)
    then show ?thesis by (simp add: 0)
  next
    case (Suc i')
    with Cons.prems(2) have "i' < length rest" by simp
    from Cons.IH [OF W' this, of ?S]
    have "ewm_loop f (S / W) W (cur # rest) ! i
          = (f ^ Suc i' * ?S + (\<Sum>j\<le>i'. f ^ (i' - j) * rest ! j))
            / (f ^ Suc i' * ?W + (\<Sum>j\<le>i'. f ^ (i' - j)))"
      by (simp only: step Suc nth_Cons_Suc)
    also have "f ^ Suc i' * ?S + (\<Sum>j\<le>i'. f ^ (i' - j) * rest ! j)
               = f ^ Suc i * S + (\<Sum>j\<le>i. f ^ (i - j) * (cur # rest) ! j)"
      by (simp add: Suc sum.atMost_Suc_shift algebra_simps del: sum.atMost_Suc)
    also have "f ^ Suc i' * ?W + (\<Sum>j\<le>i'. f ^ (i' - j))
               = f ^ Suc i * W + (\<Sum>j\<le>i. f ^ (i - j))"
      by (simp add: Suc sum.atMost_Suc_shift algebra_simps del: sum.atMost_Suc)
    finally show ?thesis .
  qed
qed

lemma ewm_mean_closed:
  fixes a :: real
  assumes "a \<le> 1" and "i < length xs"
  shows "ewm_mean a xs ! i
         = (\<Sum>j\<le>i. (1 - a) ^ (i - j) * xs ! j) / (\<Sum>j\<le>i. (1 - a) ^ (i - j))"
proof (cases xs)
  case Nil
  with assms(2) show ?thesis by simp
next
  case (Cons x rest)
  show ?thesis
  proof (cases i)
    case 0
    then show ?thesis by (simp add: Cons)
  next
    case (Suc i')
    with assms(2) Cons have i': "i' < length rest" by simp
    from assms(1) have f: "0 \<le> 1 - a" by simp
    have "ewm_mean a xs ! i = ewm_loop (1 - a) (x / 1) 1 rest ! i'"
      by (simp add: Cons Suc)
    also have "\<dots> = ((1 - a) ^ Suc i' * x + (\<Sum>j\<le>i'. (1 - a) ^ (i' - j) * rest ! j))
                    / ((1 - a) ^ Suc i' * 1 + (\<Sum>j\<le>i'. (1 - a) ^ (i' - j)))"
      by (rule ewm_loop_closed [OF f _ i']) simp
    also have "(1 - a) ^ Suc i' * x + (\<Sum>j\<le>i'. (1 - a) ^ (i' - j) * rest ! j)
               = (\<Sum>j\<le>i. (1 - a) ^ (i - j) * xs ! j)"
      by (simp add: Suc Cons sum.atMost_Suc_shift del: sum.atMost_Suc)
    also have "(1 - a) ^ Suc i' * 1 + (\<Sum>j\<le>i'. (1 - a) ^ (i' - j))
               = (\<Sum>j\<le>i. (1 - a) ^ (i - j))"
      by (simp add: Suc sum.atMost_Suc_shift del: sum.atMost_Suc)
    finally show ?thesis .
  qed
qed

lemma ewm_alpha_span: "1 \<le> spn \<Longrightarrow> ewm_alpha spn = 2 / (real_of_int spn + 1) \<and> 0 < ewm_alpha spn \<and> ewm_alpha spn \<le> 1"
  by (simp add: ewm_alpha_def field_simps)

lemma diff_fillna_length: "length (diff_fillna xs) = length xs"
  by (cases xs) simp_all

lemma diff_fillna_nth:
  "i < length xs \<Longrightarrow> diff_fillna xs ! i = (if i = 0 then 0 else xs ! i - xs ! (i - 1))"
  by (cases xs; cases i) simp_all

lemma style_trends_style: "r \<in> set (style_trends spn g s) \<Longrightarrow> tr_style r = s"
  by (auto simp: style_trends_def Let_def)

lemma style_trends_maps:
  defines "gdf g s \<equiv> sort_key (\<lambda>r. snd (fst r)) (filter (\<lambda>r. fst (fst r) = s) g)"
  shows "map tr_day (style_trends spn g s) = map (\<lambda>r. snd (fst r)) (gdf g s)"
    and "map tr_count (style_trends spn g s) = map snd (gdf g s)"
    and "map tr_ema (style_trends spn g s)
         = ewm_mean (ewm_alpha spn) (map (\<lambda>r. real_of_int (snd r)) (gdf g s))"
    and "map tr_velocity (style_trends spn g s)
         = diff_fillna (ewm_mean (ewm_alpha spn) (map (\<lambda>r. real_of_int (snd r)) (gdf g s)))"
proof -
  let ?ema = "ewm_mean (ewm_alpha spn) (map (\<lambda>r. real_of_int (snd r)) (gdf g s))"
  let ?z = "zip (gdf g s) (zip ?ema (diff_fillna ?ema))"
  have l1: "length ?ema = length (gdf g s)" by (simp add: ewm_mean_length)
  have l2: "length (diff_fillna ?ema) = length ?ema" by (rule diff_fillna_length)
  have l3: "length (zip ?ema (diff_fillna ?ema)) = length (gdf g s)" using l1 l2 by simp
  have st: "style_trends spn g s
            = map (\<lambda>(r, e, v). \<lparr>tr_style = s, tr_day = snd (fst r), tr_count = snd r,
                                  tr_ema = e, tr_velocity = v\<rparr>) ?z"
    by (simp add: style_trends_def gdf_def Let_def)
  have f: "map fst ?z = gdf g s" using l3 by (intro map_fst_zip) simp
  have s: "map snd ?z = zip ?ema (diff_fillna ?ema)" using l3 by (intro map_snd_zip) simp
  have "map tr_day (style_trends spn g s) = map (\<lambda>r. snd (fst r)) (map fst ?z)"
    unfolding st by (simp add: case_prod_beta)
  then show "map tr_day (style_trends spn g s) = map (\<lambda>r. snd (fst r)) (gdf g s)"
    by (simp only: f)
  have "map tr_count (style_trends spn g s) = map snd (map fst ?z)"
    unfolding st by (simp add: case_prod_beta)
  then show "map tr_count (style_trends spn g s) = map snd (gdf g s)" by (simp only: f)
  have "map tr_ema (style_trends spn g s) = map fst (map snd ?z)"
    unfolding st by (simp add: case_prod_beta)
  then show "map tr_ema (style_trends spn g s) = ?ema"
    unfolding s using l2 by (simp only: map_fst_zip)
  have "map tr_velocity (style_trends spn g s) = map snd (map snd ?z)"
    unfolding st by (simp add: case_prod_beta)
  then show "map tr_velocity (style_trends spn g s) = diff_fillna ?ema"
    unfolding s using l2 by (simp only: map_snd_zip)
qed

lemma style_trends_ema:
  "map tr_ema (style_trends spn g s)
   = ewm_mean (ewm_alpha spn) (map (\<lambda>r. real_of_int (tr_count r)) (style_trends spn g s))"
proof -
  have "map (\<lambda>r. real_of_int (tr_count r)) (style_trends spn g s)
        = map real_of_int (map tr_count (style_trends spn g s))" by simp
  then show ?thesis by (simp only: style_trends_maps) (simp add: comp_def)
qed

lemma style_trends_velocity:
  "map tr_velocity (style_trends spn g s) = diff_fillna (map tr_ema (style_trends spn g s))"
  by (simp only: style_trends_maps)

lemma style_trends_sorted: "sorted (map tr_day (style_trends spn g s))"
  by (simp only: style_trends_maps) simp

lemma filter_concat_style:
  assumes "distinct ss"
  shows "filter (\<lambda>r. tr_style r = s) (concat (map (style_trends spn g) ss))
         = (if s \<in> set ss then style_trends spn g s else [])"
  using assms
proof (induction ss)
  case Nil
  then show ?case by simp
next
  case (Cons t ss)
  have keep: "filter (\<lambda>r. tr_style r = s) (style_trends spn g t)
              = (if t = s then style_trends spn g t else [])"
    using style_trends_style [of _ spn g t] by (auto simp: filter_empty_conv filter_id_conv)
  from Cons show ?case by (auto simp: keep)
qed

lemma style_trends_length:
  "length (style_trends spn g s) = length (filter (\<lambda>r. fst (fst r) = s) g)"
proof -
  have "length (style_trends spn g s) = length (map tr_count (style_trends spn g s))" by simp
  also have "\<dots> = length (filter (\<lambda>r. fst (fst r) = s) g)"
    by (simp only: style_trends_maps) simp
  finally show ?thesis .
qed

lemma dated_rows_Nil:
  "List.map_filter (\<lambda>(s, d). map_option (\<lambda>day. (s, day)) d) df = []
   \<longleftrightarrow> \<not> list_ex (\<lambda>r. snd r \<noteq> None) df"
  by (induction df) (auto split: option.splits)

lemma group_sizes_Nil: "group_sizes D = [] \<longleftrightarrow> D = []"
proof -
  have "length (group_sizes D) = length (remdups D)" by (simp add: group_sizes_def)
  then have "(group_sizes D = []) = (remdups D = [])" by (metis length_0_conv)
  then show ?thesis by simp
qed

lemma calc_trends_no_day:
  assumes "\<not> list_ex (\<lambda>r. snd r \<noteq> None) df"
  shows "calc_trends spn df = Inl StatementError"
proof -
  from assms dated_rows_Nil [of df]
  have "List.map_filter (\<lambda>(s, d). map_option (\<lambda>day. (s, day)) d) df = []" by blast
  then show ?thesis by (simp add: calc_trends_def group_sizes_def)
qed

lemma calc_trends_groups:
  assumes "list_ex (\<lambda>r. snd r \<noteq> None) df"
  obtains g ss where "distinct ss" and "ss \<noteq> []"
    and "concat (map (style_trends spn g) ss) \<noteq> []"
    and "calc_trends spn df
         = (if spn < 1 then Inl ValueError else Inr (concat (map (style_trends spn g) ss)))"
proof -
  let ?g = "group_sizes (List.map_filter (\<lambda>(s, d). map_option (\<lambda>day. (s, day)) d) df)"
  let ?ss = "remdups (map (\<lambda>r. fst (fst r)) ?g)"
  from assms dated_rows_Nil [of df] have "?g \<noteq> []" by (simp only: group_sizes_Nil) blast
  then obtain r where r: "r \<in> set ?g" by (cases ?g) auto
  then have ss: "?ss \<noteq> []" and mem: "fst (fst r) \<in> set ?ss" by auto
  from r have "filter (\<lambda>x. fst (fst x) = fst (fst r)) ?g \<noteq> []"
    by (auto simp: filter_empty_conv)
  then have "style_trends spn ?g (fst (fst r)) \<noteq> []"
    using style_trends_length [of spn ?g "fst (fst r)"] by auto
  moreover have "style_trends spn ?g (fst (fst r)) \<in> set (map (style_trends spn ?g) ?ss)"
    using mem unfolding set_map by (rule imageI)
  ultimately have ne: "concat (map (style_trends spn ?g) ?ss) \<noteq> []"
    unfolding concat_eq_Nil_conv by blast
  have "calc_trends spn df
        = (if spn < 1 then Inl ValueError else Inr (concat (map (style_trends spn ?g) ?ss)))"
    using ss ne by (simp only: calc_trends_def Let_def if_False simp_thms split: if_splits)
  moreover have "distinct ?ss" by simp
  ultimately show ?thesis using that ss ne by blast
qed

lemma streetwear_eval: "calc_trends 3 streetwear_df = Inr streetwear_trends"
  by (simp add: calc_trends_def streetwear_df_def streetwear_trends_def group_sizes_def
      style_trends_def ewm_alpha_def eval_nat_numeral Let_def)

text \<open>
  C1 (as amended). When no row has a parsed day, \<open>calc_trends\<close> fails with \<open>StatementError\<close>
  (the \<open>INSERT\<close> of an empty list of rows); with a dated row and a span below 1 it fails
  with \<open>ValueError\<close>. With a dated row and a span of at least 1 it returns a non-empty list
  of rows in which, for every style, the rows of the style are in ascending order of day,
  the smoothed value is the weighted average of the counts so far with weights
  \<open>(1 - alpha) ^ (i - j)\<close> and \<open>alpha = 2 / (span + 1)\<close> (the library's adjusted mean, so
  \<open>ema[0] = count[0]\<close>), and the velocity is 0 on the first day and the difference of
  consecutive smoothed values after it. For the counts 2, 2, 8, 2 and span 3 the smoothed
  values are 2, 2, 38/7, 18/5, the velocities 0, 0, 24/7, -64/35 and the latest velocity
  -64/35.
\<close>

theorem calc_trends_ewm:
  "(\<not> list_ex (\<lambda>r. snd r \<noteq> None) df \<longrightarrow> calc_trends spn df = Inl StatementError)
   \<and> (list_ex (\<lambda>r. snd r \<noteq> None) df \<and> spn < 1 \<longrightarrow> calc_trends spn df = Inl ValueError)
   \<and> (list_ex (\<lambda>r. snd r \<noteq> None) df \<and> 1 \<le> spn \<longrightarrow>
        (\<exists>rows. calc_trends spn df = Inr rows \<and> rows \<noteq> []
           \<and> ewm_alpha spn = 2 / (real_of_int spn + 1)
           \<and> (\<forall>s. sorted (map tr_day (filter (\<lambda>r. tr_style r = s) rows))
                \<and> (\<forall>i < length (filter (\<lambda>r. tr_style r = s) rows).
                      tr_ema (filter (\<lambda>r. tr_style r = s) rows ! i)
                      = (\<Sum>j\<le>i. (1 - ewm_alpha spn) ^ (i - j)
                            * real_of_int (tr_count (filter (\<lambda>r. tr_style r = s) rows ! j)))
                        / (\<Sum>j\<le>i. (1 - ewm_alpha spn) ^ (i - j))
                    \<and> tr_velocity (filter (\<lambda>r. tr_style r = s) rows ! i)
                      = (if i = 0 then 0
                         else tr_ema (filter (\<lambda>r. tr_style r = s) rows ! i)
                              - tr_ema (filter (\<lambda>r. tr_style r = s) rows ! (i - 1)))))))"
proof (intro conjI impI)
  assume "\<not> list_ex (\<lambda>r. snd r \<noteq> None) df"
  then show "calc_trends spn df = Inl StatementError" by (rule calc_trends_no_day)
next
  assume "list_ex (\<lambda>r. snd r \<noteq> None) df \<and> spn < 1"
  then have d: "list_ex (\<lambda>r. snd r \<noteq> None) df" and "spn < 1" by simp_all
  from d obtain g ss where
    "calc_trends spn df
     = (if spn < 1 then Inl ValueError else Inr (concat (map (style_trends spn g) ss)))"
    by (rule calc_trends_groups)
  with \<open>spn < 1\<close> show "calc_trends spn df = Inl ValueError" by simp
next
  assume "list_ex (\<lambda>r. snd r \<noteq> None) df \<and> 1 \<le> spn"
  then have dated: "list_ex (\<lambda>r. snd r \<noteq> None) df" and spn: "1 \<le> spn" by simp_all
  from dated obtain g ss where d: "distinct ss"
    and ne: "concat (map (style_trends spn g) ss) \<noteq> []"
    and c0: "calc_trends spn df
         = (if spn < 1 then Inl ValueError else Inr (concat (map (style_trends spn g) ss)))"
    by (rule calc_trends_groups)
  from c0 spn have c: "calc_trends spn df = Inr (concat (map (style_trends spn g) ss))" by simp
  let ?rows = "concat (map (style_trends spn g) ss)"
  note a = ewm_alpha_span [OF spn]
  have per_style: "sorted (map tr_day rs)
        \<and> (\<forall>i < length rs.
              tr_ema (rs ! i)
              = (\<Sum>j\<le>i. (1 - ewm_alpha spn) ^ (i - j) * real_of_int (tr_count (rs ! j)))
                / (\<Sum>j\<le>i. (1 - ewm_alpha spn) ^ (i - j))
            \<and> tr_velocity (rs ! i) = (if i = 0 then 0 else tr_ema (rs ! i) - tr_ema (rs ! (i - 1))))"
    if rs: "rs = filter (\<lambda>r. tr_style r = s) ?rows" for s rs
  proof (cases "s \<in> set ss")
    case False
    then show ?thesis by (simp add: rs filter_concat_style [OF d])
  next
    case True
    then have rs': "rs = style_trends spn g s" by (simp add: rs filter_concat_style [OF d])
    have e: "map tr_ema rs = ewm_mean (ewm_alpha spn) (map (\<lambda>r. real_of_int (tr_count r)) rs)"
      unfolding rs' by (rule style_trends_ema)
    have v: "map tr_velocity rs = diff_fillna (map tr_ema rs)"
      unfolding rs' by (rule style_trends_velocity)
    have "tr_ema (rs ! i)
          = (\<Sum>j\<le>i. (1 - ewm_alpha spn) ^ (i - j) * real_of_int (tr_count (rs ! j)))
            / (\<Sum>j\<le>i. (1 - ewm_alpha spn) ^ (i - j))" if i: "i < length rs" for i
    proof -
      have "tr_ema (rs ! i) = map tr_ema rs ! i" using i by simp
      also have "\<dots> = ewm_mean (ewm_alpha spn) (map (\<lambda>r. real_of_int (tr_count r)) rs) ! i"
        by (simp only: e)
      also have "\<dots> = (\<Sum>j\<le>i. (1 - ewm_alpha spn) ^ (i - j)
                            * map (\<lambda>r. real_of_int (tr_count r)) rs ! j)
                       / (\<Sum>j\<le>i. (1 - ewm_alpha spn) ^ (i - j))"
        using a i by (intro ewm_mean_closed) simp_all
      also have "(\<Sum>j\<le>i. (1 - ewm_alpha spn) ^ (i - j) * map (\<lambda>r. real_of_int (tr_count r)) rs ! j)
                 = (\<Sum>j\<le>i. (1 - ewm_alpha spn) ^ (i - j) * real_of_int (tr_count (rs ! j)))"
        using i by (intro sum.cong) simp_all
      finally show ?thesis .
    qed
    moreover have "tr_velocity (rs ! i) = (if i = 0 then 0 else tr_ema (rs ! i) - tr_ema (rs ! (i - 1)))"
      if i: "i < length rs" for i
    proof -
      have "tr_velocity (rs ! i) = map tr_velocity rs ! i" using i by simp
      also have "\<dots> = diff_fillna (map tr_ema rs) ! i" by (simp only: v)
      also have "\<dots> = (if i = 0 then 0 else map tr_ema rs ! i - map tr_ema rs ! (i - 1))"
        using i by (intro diff_fillna_nth) simp
      finally show ?thesis using i by simp
    qed
    moreover have "sorted (map tr_day rs)" unfolding rs' by (rule style_trends_sorted)
    ultimately show ?thesis by blast
  qed
  show "\<exists>rows. calc_trends spn df = Inr rows \<and> rows \<noteq> []
           \<and> ewm_alpha spn = 2 / (real_of_int spn + 1)
           \<and> (\<forall>s. sorted (map tr_day (filter (\<lambda>r. tr_style r = s) rows))
                \<and> (\<forall>i < length (filter (\<lambda>r. tr_style r = s) rows).
                      tr_ema (filter (\<lambda>r. tr_style r = s) rows ! i)
                      = (\<Sum>j\<le>i. (1 - ewm_alpha spn) ^ (i - j)
                            * real_of_int (tr_count (filter (\<lambda>r. tr_style r = s) rows ! j)))
                        / (\<Sum>j\<le>i. (1 - ewm_alpha spn) ^ (i - j))
                    \<and> tr_velocity (filter (\<lambda>r. tr_style r = s) rows ! i)
                      = (if i = 0 then 0
                         else tr_ema (filter (\<lambda>r. tr_style r = s) rows ! i)
                              - tr_ema (filter (\<lambda>r. tr_style r = s) rows ! (i - 1)))))"
    using c ne a per_style by (intro exI [of _ ?rows]) blast
qed

theorem calc_trends_ewm_witness:
  "\<not> list_ex (\<lambda>r. snd r \<noteq> None) [(''formal'', None :: string option)]
   \<and> calc_trends 3 [(''formal'', None)] = Inl StatementError
   \<and> list_ex (\<lambda>r. snd r \<noteq> None) streetwear_df
   \<and> calc_trends 0 streetwear_df = Inl ValueError
   \<and> (1 :: int) \<le> 3 \<and> calc_trends 3 streetwear_df = Inr streetwear_trends
   \<and> ewm_alpha 3 = 2 / (real_of_int 3 + 1)
   \<and> sorted (map tr_day (filter (\<lambda>r. tr_style r = ''streetwear'') streetwear_trends))
   \<and> tr_ema (filter (\<lambda>r. tr_style r = ''streetwear'') streetwear_trends ! 2)
       = (\<Sum>j\<le>2. (1 - ewm_alpha 3) ^ (2 - j)
             * real_of_int (tr_count (filter (\<lambda>r. tr_style r = ''streetwear'') streetwear_trends ! j)))
         / (\<Sum>j\<le>2. (1 - ewm_alpha 3) ^ (2 - j))
   \<and> tr_ema (filter (\<lambda>r. tr_style r = ''streetwear'') streetwear_trends ! 2) = 38/7
   \<and> tr_velocity (filter (\<lambda>r. tr_style r = ''streetwear'') streetwear_trends ! 3)
       = tr_ema (filter (\<lambda>r. tr_style r = ''streetwear'') streetwear_trends ! 3)
         - tr_ema (filter (\<lambda>r. tr_style r = ''streetwear'') streetwear_trends ! 2)"
proof -
  let ?rs = "filter (\<lambda>r. tr_style r = ''streetwear'') streetwear_trends"
  have n: "\<not> list_ex (\<lambda>r. snd r \<noteq> None) [(''formal'', None :: string option)]" by simp
  have d: "list_ex (\<lambda>r. snd r \<noteq> None) streetwear_df" by (simp add: streetwear_df_def)
  have h: "(1 :: int) \<le> 3" by simp
  from calc_trends_ewm [of "[(''formal'', None)]" 3] n
  have c1: "calc_trends 3 [(''formal'', None)] = Inl StatementError" by blast
  from calc_trends_ewm [of streetwear_df 0] d
  have c2: "calc_trends 0 streetwear_df = Inl ValueError" by simp
  from calc_trends_ewm [of streetwear_df 3] d h obtain rows where
    r: "calc_trends 3 streetwear_df = Inr rows"
    and a: "ewm_alpha 3 = 2 / (real_of_int 3 + 1)"
    and s: "\<forall>s. sorted (map tr_day (filter (\<lambda>r. tr_style r = s) rows))
                \<and> (\<forall>i < length (filter (\<lambda>r. tr_style r = s) rows).
                      tr_ema (filter (\<lambda>r. tr_style r = s) rows ! i)
                      = (\<Sum>j\<le>i. (1 - ewm_alpha 3) ^ (i - j)
                            * real_of_int (tr_count (filter (\<lambda>r. tr_style r = s) rows ! j)))
                        / (\<Sum>j\<le>i. (1 - ewm_alpha 3) ^ (i - j))
                    \<and> tr_velocity (filter (\<lambda>r. tr_style r = s) rows ! i)
                      = (if i = 0 then 0
                         else tr_ema (filter (\<lambda>r. tr_style r = s) rows ! i)
                              - tr_ema (filter (\<lambda>r. tr_style r = s) rows ! (i - 1))))"
    by blast
  from r streetwear_eval have rows: "rows = streetwear_trends" by simp
  have len: "length ?rs = 4" by (simp add: streetwear_trends_def)
  from s [unfolded rows] have st: "sorted (map tr_day ?rs)"
    and e: "\<And>i. i < length ?rs \<Longrightarrow> tr_ema (?rs ! i)
                      = (\<Sum>j\<le>i. (1 - ewm_alpha 3) ^ (i - j) * real_of_int (tr_count (?rs ! j)))
                        / (\<Sum>j\<le>i. (1 - ewm_alpha 3) ^ (i - j))"
    and v: "\<And>i. i < length ?rs \<Longrightarrow> tr_velocity (?rs ! i)
                      = (if i = 0 then 0 else tr_ema (?rs ! i) - tr_ema (?rs ! (i - 1)))"
    by blast+
  have e2: "tr_ema (?rs ! 2)
       = (\<Sum>j\<le>2. (1 - ewm_alpha 3) ^ (2 - j) * real_of_int (tr_count (?rs ! j)))
         / (\<Sum>j\<le>2. (1 - ewm_alpha 3) ^ (2 - j))"
    by (rule e) (simp add: len)
  have v3: "tr_velocity (?rs ! 3) = tr_ema (?rs ! 3) - tr_ema (?rs ! 2)"
    using v [of 3] by (simp add: len)
  have val: "tr_ema (?rs ! 2) = 38/7" by (simp add: streetwear_trends_def)
  from n c1 d c2 h streetwear_eval a st e2 val v3 show ?thesis by blast
qed

text \<open>
  Counterexample to C1 as stated: for the counts 2, 2, 8, 2 and span 3 the smoothed values
  are not 2, 2, 5, 7/2, and the latest velocity is -64/35, not -3/2.
\<close>

theorem calc_trends_recursive_counterexample:
  "calc_trends 3 streetwear_df = Inr streetwear_trends
   \<and> map tr_count (filter (\<lambda>r. tr_style r = ''streetwear'') streetwear_trends) = [2, 2, 8, 2]
   \<and> map tr_ema (filter (\<lambda>r. tr_style r = ''streetwear'') streetwear_trends) = [2, 2, 38/7, 18/5]
   \<and> map tr_ema (filter (\<lambda>r. tr_style r = ''streetwear'') streetwear_trends) \<noteq> [2, 2, 5, 7/2]
   \<and> map tr_velocity (filter (\<lambda>r. tr_style r = ''streetwear'') streetwear_trends)
       = [0, 0, 24/7, - 64/35]
   \<and> latest streetwear_trends ''streetwear'' = Some (- 64/35)"
  using streetwear_eval by (simp add: streetwear_trends_def latest_def)

end
